theory Spec2Isabelle
  imports Complex_Main "HOL-Library.AList"
begin

section \<open>Values, exceptions and string helpers\<close>

text \<open>
  Decoded JSON values, as Python's \<^verbatim>\<open>json\<close> module hands them to the program:
  \<^verbatim>\<open>None\<close>, booleans, integers, floats, strings, lists and dicts. A dict is an
  association list in insertion order whose lookup is \<open>map_of\<close>. A float is the real
  number it denotes; rounding, infinities and NaN are left out.
\<close>

datatype json =
    JNull
  | JBool bool
  | JInt int
  | JFloat real
  | JStr string
  | JList "json list"
  | JDict "(string \<times> json) list"

text \<open>
  The exception classes the program meets. \<open>ValueError\<close> stands for the class and its
  subclasses (\<^verbatim>\<open>binascii.Error\<close>, \<^verbatim>\<open>json.JSONDecodeError\<close>,
  \<^verbatim>\<open>UnicodeDecodeError\<close>); \<open>RuntimeError\<close> carries its message, which
  \<^verbatim>\<open>sync_all\<close> inspects; \<open>OtherError\<close> is any exception outside these classes
  (a connection error, \<^verbatim>\<open>OverflowError\<close>, \<^verbatim>\<open>OSError\<close>).
\<close>

datatype exn =
    ValueError
  | KeyError
  | TypeError
  | AttributeError
  | IndexError
  | RuntimeError string
  | KeyboardInterrupt
  | OtherError

text \<open>Python truthiness of a decoded JSON value (\<^verbatim>\<open>if v:\<close>).\<close>

fun truthy :: "json \<Rightarrow> bool" where
  "truthy JNull = False"
| "truthy (JBool b) = b"
| "truthy (JInt n) = (n \<noteq> 0)"
| "truthy (JFloat x) = (x \<noteq> 0)"
| "truthy (JStr s) = (s \<noteq> [])"
| "truthy (JList xs) = (xs \<noteq> [])"
| "truthy (JDict kvs) = (kvs \<noteq> [])"

text \<open>The number a value is in Python's arithmetic, if it is one (a boolean is an
  integer there).\<close>

fun json_number :: "json \<Rightarrow> real option" where
  "json_number (JInt n) = Some (real_of_int n)"
| "json_number (JFloat x) = Some x"
| "json_number (JBool b) = Some (if b then 1 else 0)"
| "json_number _ = None"

text \<open>\<^verbatim>\<open>s.startswith(p)\<close>\<close>

definition startswith :: "string \<Rightarrow> string \<Rightarrow> bool" where
  "startswith s p = (take (length p) s = p)"

text \<open>\<^verbatim>\<open>s.endswith(p)\<close>\<close>

definition endswith :: "string \<Rightarrow> string \<Rightarrow> bool" where
  "endswith s p = (length p \<le> length s \<and> drop (length s - length p) s = p)"

text \<open>\<^verbatim>\<open>p in s\<close> for two strings: \<open>p\<close> occurs in \<open>s\<close> as a contiguous run.\<close>

fun str_contains :: "string \<Rightarrow> string \<Rightarrow> bool" where
  "str_contains p [] = (p = [])"
| "str_contains p (c # cs) = (startswith (c # cs) p \<or> str_contains p cs)"

text \<open>
  \<^verbatim>\<open>s.split(sep)\<close> for a non-empty separator: the pieces of \<open>s\<close> between the
  non-overlapping occurrences of \<open>sep\<close>, found from the left. The function walks the text;
  the current piece is the head of the result.
\<close>

function py_split :: "string \<Rightarrow> string \<Rightarrow> string list" where
  "py_split sep [] = [[]]"
| "py_split sep (c # cs) =
     (if sep \<noteq> [] \<and> startswith (c # cs) sep
      then [] # py_split sep (drop (length sep) (c # cs))
      else (case py_split sep cs of
              [] \<Rightarrow> [[c]]
            | p # ps \<Rightarrow> (c # p) # ps))"
  by pat_completeness auto
termination
  by (relation "measure (\<lambda>(sep, s). length s)") auto

text \<open>\<^verbatim>\<open>d.get(k)\<close>: the value at \<open>k\<close>, \<^verbatim>\<open>None\<close> when the key is absent.\<close>

definition dict_get :: "(string \<times> json) list \<Rightarrow> string \<Rightarrow> json" where
  "dict_get kvs k = (case map_of kvs k of None \<Rightarrow> JNull | Some v \<Rightarrow> v)"

section \<open>Token expiry (ihcm\_auth.py, SessionCache.is\_token\_expired)\<close>

text \<open>
  The library functions \<^verbatim>\<open>is_token_expired\<close> calls are parameters of the model:
  \<^item> \<open>urlsafe_b64decode\<close>: \<^verbatim>\<open>base64.urlsafe_b64decode\<close>, the decoded bytes or the
    exception raised;
  \<^item> \<open>json_loads\<close>: \<^verbatim>\<open>json.loads\<close>, the decoded value or the exception raised;
  \<^item> \<open>fromtimestamp\<close>: \<^verbatim>\<open>datetime.fromtimestamp(x).timestamp()\<close>, the POSIX time
    of the datetime built from \<open>x\<close>, or the exception raised (a \<^verbatim>\<open>TypeError\<close> for
    a value that is no number, a \<^verbatim>\<open>ValueError\<close> or another error for a time the
    platform cannot represent).
  Times are real numbers of seconds.
\<close>

record token_lib =
  urlsafe_b64decode :: "string \<Rightarrow> exn + string"
  json_loads :: "string \<Rightarrow> exn + json"
  fromtimestamp :: "json \<Rightarrow> exn + real"

text \<open>\<^verbatim>\<open>payload.get('exp')\<close>: only a dict has the method.\<close>

definition payload_get :: "json \<Rightarrow> string \<Rightarrow> exn + json" where
  "payload_get payload k =
     (case payload of JDict kvs \<Rightarrow> Inr (dict_get kvs k) | _ \<Rightarrow> Inl AttributeError)"

text \<open>The padding step: \<^verbatim>\<open>padding = 4 - len(payload_b64) % 4\<close>, added unless it is 4.\<close>

definition add_padding :: "string \<Rightarrow> string" where
  "add_padding payload_b64 =
     (let padding = 4 - length payload_b64 mod 4
      in if padding \<noteq> 4 then payload_b64 @ replicate padding (CHR ''='') else payload_b64)"

text \<open>The body of the \<^verbatim>\<open>try\<close> block; \<open>Inl\<close> is an exception raised inside it.\<close>

definition is_token_expired_body :: "token_lib \<Rightarrow> real \<Rightarrow> string \<Rightarrow> int \<Rightarrow> exn + bool" where
  "is_token_expired_body L now bearer_token buffer_minutes =
     (let parts = py_split ''.'' bearer_token in
      if length parts \<noteq> 3 then Inr True
      else
        (case urlsafe_b64decode L (add_padding (parts ! 1)) of
           Inl e \<Rightarrow> Inl e
         | Inr payload_json \<Rightarrow>
             (case json_loads L payload_json of
                Inl e \<Rightarrow> Inl e
              | Inr payload \<Rightarrow>
                  (case payload_get payload ''exp'' of
                     Inl e \<Rightarrow> Inl e
                   | Inr exp_timestamp \<Rightarrow>
                       if \<not> truthy exp_timestamp then Inr False
                       else
                         (case fromtimestamp L exp_timestamp of
                            Inl e \<Rightarrow> Inl e
                          | Inr exp_time \<Rightarrow>
                              if exp_time - now < real_of_int (buffer_minutes * 60)
                              then Inr True
                              else Inr False)))))"

text \<open>
  \<^verbatim>\<open>except (ValueError, KeyError, json.JSONDecodeError): return True\<close>; every other
  exception leaves the function.
\<close>

definition is_token_expired :: "token_lib \<Rightarrow> real \<Rightarrow> string \<Rightarrow> int \<Rightarrow> exn + bool" where
  "is_token_expired L now bearer_token buffer_minutes =
     (case is_token_expired_body L now bearer_token buffer_minutes of
        Inl ValueError \<Rightarrow> Inr True
      | Inl KeyError \<Rightarrow> Inr True
      | Inl e \<Rightarrow> Inl e
      | Inr b \<Rightarrow> Inr b)"


section \<open>More string helpers\<close>

text \<open>
  \<^verbatim>\<open>s.strip()\<close>: the whitespace of \<^verbatim>\<open>str.isspace\<close> among the characters
  below 256, removed at both ends.
\<close>

definition is_space :: "char \<Rightarrow> bool" where
  "is_space c =
     (let n = (of_char c :: nat)
      in (9 \<le> n \<and> n \<le> 13) \<or> (28 \<le> n \<and> n \<le> 32) \<or> n = 133 \<or> n = 160)"

definition strip :: "string \<Rightarrow> string" where
  "strip s = rev (dropWhile is_space (rev (dropWhile is_space s)))"

text \<open>\<^verbatim>\<open>s.lower()\<close> on the characters below 256.\<close>

definition lower_char :: "char \<Rightarrow> char" where
  "lower_char c =
     (let n = (of_char c :: nat)
      in if (65 \<le> n \<and> n \<le> 90) \<or> (192 \<le> n \<and> n \<le> 222 \<and> n \<noteq> 215)
         then char_of (n + 32) else c)"

definition lower :: "string \<Rightarrow> string" where
  "lower s = map lower_char s"

text \<open>\<^verbatim>\<open>str(n)\<close> for an integer, in decimal.\<close>

definition digit_char :: "nat \<Rightarrow> char" where
  "digit_char d = char_of (48 + d)"

function str_of_nat :: "nat \<Rightarrow> string" where
  "str_of_nat n =
     (if n < 10 then [digit_char n] else str_of_nat (n div 10) @ [digit_char (n mod 10)])"
  by pat_completeness auto
termination
  by (relation "measure id") auto

declare str_of_nat.simps [simp del]

definition str_of_int :: "int \<Rightarrow> string" where
  "str_of_int i = (if i < 0 then CHR ''-'' # str_of_nat (nat (- i)) else str_of_nat (nat i))"

text \<open>\<^verbatim>\<open>s.split(sep)[0]\<close> and \<^verbatim>\<open>s.split(sep)[1]\<close>; the latter raises
  \<^verbatim>\<open>IndexError\<close> when \<open>sep\<close> does not occur.\<close>

definition split_first :: "string \<Rightarrow> string \<Rightarrow> string" where
  "split_first sep s = (case py_split sep s of [] \<Rightarrow> [] | p # _ \<Rightarrow> p)"

definition split_second :: "string \<Rightarrow> string \<Rightarrow> string option" where
  "split_second sep s = (case py_split sep s of _ # p # _ \<Rightarrow> Some p | _ \<Rightarrow> None)"

section \<open>The remote service and the local store\<close>

text \<open>
  A record of a listing is a JSON object (\<^verbatim>\<open>dict[str, Any]\<close> in the source): an
  association list from field names to values.
\<close>

type_synonym payslip = "(string \<times> json) list"

text \<open>
  The decoded body of a listing response: a bare list of records, an object with an
  optional \<^verbatim>\<open>data\<close> list and an optional integer \<^verbatim>\<open>total\<close>, or any other value.
\<close>

datatype body =
    BodyList "payslip list"
  | BodyDict "payslip list option" "int option"
  | BodyOther

text \<open>
  What an HTTP call gives: a response with its status code, its text and the result of
  \<^verbatim>\<open>response.json()\<close> (\<open>Inl\<close> with the text of the \<^verbatim>\<open>JSONDecodeError\<close> when
  decoding raises), or an exception raised by the call itself.
\<close>

datatype 'a http =
    Responds int string "string + 'a"
  | Throws exn

text \<open>
  The world a run talks to. Every field is the behaviour of something outside the
  program:
  \<^item> \<open>query_post start limit\<close>: the pay-statement query for the page at \<open>start\<close>;
  \<^item> \<open>employee_post start limit\<close>: the people query of \<^verbatim>\<open>IHCMExtractor\<close>;
  \<^item> \<open>detail_get encoded_id\<close>: the detail request for one record;
  \<^item> \<open>pdf_get url\<close>: what \<^verbatim>\<open>_fetch_pdf_via_requests\<close> returns for the URL
    (the bytes, \<open>None\<close>, or an exception escaping it);
  \<^item> \<open>write_error path\<close>: the exception that creating the parent directories of the
    path and writing the file raises, if any (\<^verbatim>\<open>OSError\<close> for a name too long or a
    directory that may not be written, \<^verbatim>\<open>ValueError\<close> for a NUL character);
  \<^item> \<open>now_iso n\<close>: \<^verbatim>\<open>datetime.now().isoformat()\<close> at the \<open>n\<close>-th reading of the clock;
  \<^item> \<open>fromisoformat\<close>: year and month of \<^verbatim>\<open>datetime.fromisoformat\<close>, \<open>None\<close> for
    \<^verbatim>\<open>ValueError\<close>;
  \<^item> \<open>py_str\<close>: the builtin \<^verbatim>\<open>str\<close> on a decoded JSON value.
\<close>

record world =
  query_post :: "nat \<Rightarrow> nat \<Rightarrow> body http"
  employee_post :: "nat \<Rightarrow> nat \<Rightarrow> body http"
  detail_get :: "string \<Rightarrow> json http"
  pdf_get :: "string \<Rightarrow> exn + string option"
  write_error :: "string \<Rightarrow> exn option"
  now_iso :: "nat \<Rightarrow> string"
  fromisoformat :: "string \<Rightarrow> (nat \<times> nat) option"
  py_str :: "json \<Rightarrow> string"

text \<open>An index entry; \<open>json_path\<close> is \<^verbatim>\<open>entry.get("json_path")\<close>.\<close>

record entry =
  pay_date :: string
  json_path :: "string option"
  pdf_path :: "string option"
  cached_at :: string

text \<open>\<^verbatim>\<open>PayslipIndex._data\<close> once loaded; the dict of payslips keeps insertion order.\<close>

record index_data =
  payslips :: "(string \<times> entry) list"
  total_count :: nat
  last_sync :: "string option"

text \<open>
  The file \<^verbatim>\<open>index.json\<close>: absent, unreadable (\<^verbatim>\<open>JSONDecodeError\<close> or
  \<^verbatim>\<open>OSError\<close>), or an object in which each of the three keys may be missing.
\<close>

datatype index_file =
    NoFile
  | Unreadable
  | Stored "(string \<times> entry) list option" "nat option" "string option"

text \<open>What a run leaves a trace of.\<close>

datatype event =
    Warned payslip
  | Fetched string
  | WroteJson string
  | WrotePdf string
  | Marked string
  | Saved

text \<open>
  The state of a run: the index in memory, the index file, the paths that exist, the
  number of clock readings so far, and the trace. A path is the text that, joined to the
  cache directory, names it: the text relative to the cache directory for a path under
  it, the absolute text otherwise. Symbolic links and other names of the same file are not
  modelled, and writing the index file always succeeds.
\<close>

record state =
  index :: index_data
  disk_index :: index_file
  files :: "string set"
  clock :: nat
  events :: "event list"

text \<open>The state before any run: no index file, no cached file.\<close>

definition fresh_state :: state where
  "fresh_state =
     \<lparr>index = \<lparr>payslips = [], total_count = 0, last_sync = None\<rparr>,
      disk_index = NoFile, files = {}, clock = 0, events = []\<rparr>"

section \<open>PayslipIndex (payslip\_sync.py)\<close>

definition index_load :: "index_file \<Rightarrow> index_data" where
  "index_load f =
     (case f of
        Stored p t l \<Rightarrow>
          \<lparr>payslips = (case p of None \<Rightarrow> [] | Some ps \<Rightarrow> ps),
           total_count = (case t of None \<Rightarrow> 0 | Some n \<Rightarrow> n),
           last_sync = l\<rparr>
      | _ \<Rightarrow> \<lparr>payslips = [], total_count = 0, last_sync = None\<rparr>)"

definition load :: "state \<Rightarrow> state" where
  "load s = s\<lparr>index := index_load (disk_index s)\<rparr>"

definition save :: "world \<Rightarrow> state \<Rightarrow> state" where
  "save w s =
     (let d = (index s)\<lparr>last_sync := Some (now_iso w (clock s)),
                        total_count := length (payslips (index s))\<rparr>
      in s\<lparr>index := d,
           disk_index := Stored (Some (payslips d)) (Some (total_count d)) (last_sync d),
           clock := Suc (clock s),
           events := events s @ [Saved]\<rparr>)"

definition is_cached :: "index_data \<Rightarrow> string set \<Rightarrow> string \<Rightarrow> bool \<Rightarrow> bool" where
  "is_cached d fs encoded_id verify_exists =
     (case map_of (payslips d) encoded_id of
        None \<Rightarrow> False
      | Some e \<Rightarrow>
          if \<not> verify_exists then True
          else (case json_path e of
                  None \<Rightarrow> True
                | Some p \<Rightarrow> if p \<noteq> [] \<and> p \<notin> fs then False else True))"

definition mark_cached ::
  "world \<Rightarrow> string \<Rightarrow> string \<Rightarrow> string \<Rightarrow> string option \<Rightarrow> state \<Rightarrow> state" where
  "mark_cached w encoded_id pd jp pp s =
     s\<lparr>index := (index s)\<lparr>payslips :=
            AList.update encoded_id
              \<lparr>pay_date = pd, json_path = Some jp, pdf_path = pp,
               cached_at = now_iso w (clock s)\<rparr>
              (payslips (index s))\<rparr>,
       clock := Suc (clock s),
       events := events s @ [Marked encoded_id]\<rparr>"


section \<open>PayslipSyncer: requests (payslip\_sync.py)\<close>

definition IHCM_BASE_URL :: string where
  "IHCM_BASE_URL = ''https://ihcm.adp.com/whrmux/webapi''"

text \<open>\<^verbatim>\<open>_check_session_valid\<close>: the exception it raises, if any.\<close>

definition check_session_valid :: "int \<Rightarrow> string \<Rightarrow> exn option" where
  "check_session_valid status_code txt =
     (if status_code = 401
      then Some (RuntimeError
        (''Authentication failed (401). Session may have expired.'' @ [CHR 0x0A] @
         ''Try running with --clear-cache to force fresh authentication.''))
      else
        (let content = strip txt in
         if startswith content ''<!'' \<or> startswith content ''<html''
         then Some (RuntimeError
           (''Session expired - received login page instead of JSON.'' @ [CHR 0x0A] @
            ''Try running with --clear-cache to force fresh authentication.''))
         else None))"

text \<open>
  One turn of the loop of \<^verbatim>\<open>list_all_payslips\<close> up to the point where the batch and
  the total are known: the request, the session check, the status check, the decoding and
  the shape of the decoded body.
\<close>

datatype page =
    Page "payslip list" int
  | PageUnexpected
  | PageError exn

definition query_page :: "world \<Rightarrow> nat \<Rightarrow> nat \<Rightarrow> page" where
  "query_page w start batch_size =
     (case query_post w start batch_size of
        Throws e \<Rightarrow> PageError e
      | Responds status_code txt decoded \<Rightarrow>
          (case check_session_valid status_code txt of
             Some e \<Rightarrow> PageError e
           | None \<Rightarrow>
               if status_code \<noteq> 200
               then PageError (RuntimeError
                 (''Failed to query payslips: HTTP '' @ str_of_int status_code @ [CHR 0x0A] @
                  ''Response: '' @ take 500 txt))
               else
                 (case decoded of
                    Inl msg \<Rightarrow>
                      PageError (RuntimeError
                        (''Invalid JSON response from payslip query: '' @ msg))
                  | Inr (BodyList batch) \<Rightarrow> Page batch (int (length batch))
                  | Inr (BodyDict (Some batch) tot) \<Rightarrow>
                      Page batch (case tot of None \<Rightarrow> int (length batch) | Some t \<Rightarrow> t)
                  | Inr (BodyDict None tot) \<Rightarrow> PageUnexpected
                  | Inr BodyOther \<Rightarrow> PageUnexpected)))"

text \<open>
  The \<^verbatim>\<open>while True\<close> loop of \<^verbatim>\<open>list_all_payslips\<close>. It need not end (a service
  may keep returning non-empty pages below its total), so not returning is \<open>None\<close>.
  The result carries the offsets requested, in order.
\<close>

partial_function (option) list_loop ::
  "world \<Rightarrow> nat \<Rightarrow> nat \<Rightarrow> payslip list \<Rightarrow> nat list \<Rightarrow> ((exn + payslip list) \<times> nat list) option"
where
  "list_loop w batch_size start all_payslips requests =
     (case query_page w start batch_size of
        PageError e \<Rightarrow> Some (Inl e, requests @ [start])
      | PageUnexpected \<Rightarrow> Some (Inr all_payslips, requests @ [start])
      | Page batch tot \<Rightarrow>
          if int (length (all_payslips @ batch)) \<ge> tot \<or> length batch = 0
          then Some (Inr (all_payslips @ batch), requests @ [start])
          else list_loop w batch_size (start + length batch) (all_payslips @ batch)
                 (requests @ [start]))"

declare list_loop.simps [code]

definition list_all_payslips :: "world \<Rightarrow> ((exn + payslip list) \<times> nat list) option" where
  "list_all_payslips w = list_loop w 100 0 [] []"

text \<open>What \<^verbatim>\<open>fetch_payslip_detail\<close> makes of the answer to its request: the decoded
  detail or the exception raised.\<close>

definition detail_result :: "world \<Rightarrow> string \<Rightarrow> exn + json" where
  "detail_result w encoded_id =
     (case detail_get w encoded_id of
        Throws e \<Rightarrow> Inl e
      | Responds status_code txt decoded \<Rightarrow>
          (case check_session_valid status_code txt of
             Some e \<Rightarrow> Inl e
           | None \<Rightarrow>
               if status_code = 404
               then Inl (RuntimeError (''Payslip not found: '' @ encoded_id))
               else if status_code \<noteq> 200
               then Inl (RuntimeError
                 (''Failed to fetch payslip detail: HTTP '' @ str_of_int status_code))
               else (case decoded of Inl msg \<Rightarrow> Inl ValueError | Inr d \<Rightarrow> Inr d)))"

text \<open>\<^verbatim>\<open>fetch_payslip_detail\<close>: the request is issued, and recorded in the trace, here.\<close>

definition fetch_payslip_detail :: "world \<Rightarrow> string \<Rightarrow> state \<Rightarrow> (exn + json) \<times> state" where
  "fetch_payslip_detail w encoded_id s =
     (detail_result w encoded_id, s\<lparr>events := events s @ [Fetched encoded_id]\<rparr>)"

text \<open>\<^verbatim>\<open>fetch_payslip_pdf\<close>; the HTTP exchange of \<^verbatim>\<open>_fetch_pdf_via_requests\<close> is
  the world's \<open>pdf_get\<close>.\<close>

definition fetch_payslip_pdf :: "world \<Rightarrow> string \<Rightarrow> exn + string option" where
  "fetch_payslip_pdf w pdf_url = (if pdf_url = [] then Inr None else pdf_get w pdf_url)"

section \<open>PayslipSyncer: reading a record\<close>

text \<open>\<^verbatim>\<open>href = uri.get("href") if isinstance(uri, dict) else uri\<close>\<close>

definition href_of :: "json \<Rightarrow> json" where
  "href_of uri = (case uri of JDict kvs \<Rightarrow> dict_get kvs ''href'' | _ \<Rightarrow> uri)"

text \<open>
  \<^verbatim>\<open>sep in href\<close>, as Python evaluates it on each kind of value: a substring test on
  a string, membership in a list, a key test on a dict, \<^verbatim>\<open>TypeError\<close> otherwise.
\<close>

fun py_in :: "string \<Rightarrow> json \<Rightarrow> exn + bool" where
  "py_in sep (JStr s) = Inr (str_contains sep s)"
| "py_in sep (JList xs) = Inr (JStr sep \<in> set xs)"
| "py_in sep (JDict kvs) = Inr (map_of kvs sep \<noteq> None)"
| "py_in sep _ = Inl TypeError"

text \<open>The fallback loop of \<^verbatim>\<open>_get_encoded_id\<close>: the first listed field that is
  present and truthy.\<close>

fun first_truthy_field :: "payslip \<Rightarrow> string list \<Rightarrow> json option" where
  "first_truthy_field payslip [] = None"
| "first_truthy_field payslip (field # rest) =
     (case map_of payslip field of
        None \<Rightarrow> first_truthy_field payslip rest
      | Some v \<Rightarrow> if truthy v then Some v else first_truthy_field payslip rest)"

definition get_encoded_id_fallback :: "(json \<Rightarrow> string) \<Rightarrow> payslip \<Rightarrow> exn + string" where
  "get_encoded_id_fallback to_str payslip =
     (case first_truthy_field payslip [''id'', ''encodedId'', ''encoded_id'', ''payStatementId''] of
        Some v \<Rightarrow> Inr (to_str v)
      | None \<Rightarrow> Inl ValueError)"

definition get_encoded_id :: "(json \<Rightarrow> string) \<Rightarrow> payslip \<Rightarrow> exn + string" where
  "get_encoded_id to_str payslip =
     (case map_of payslip ''payDetailUri'' of
        None \<Rightarrow> get_encoded_id_fallback to_str payslip
      | Some uri \<Rightarrow>
          (let href = href_of uri in
           if \<not> truthy href then get_encoded_id_fallback to_str payslip
           else
             (case py_in ''/payStatement/'' href of
                Inl e \<Rightarrow> Inl e
              | Inr False \<Rightarrow> get_encoded_id_fallback to_str payslip
              | Inr True \<Rightarrow>
                  (case href of
                     JStr h \<Rightarrow>
                       (case split_second ''/payStatement/'' h of
                          Some i \<Rightarrow> Inr i
                        | None \<Rightarrow> Inl IndexError)
                   | _ \<Rightarrow> Inl AttributeError))))"

text \<open>\<^verbatim>\<open>_get_pay_date\<close>\<close>

fun first_date_field :: "payslip \<Rightarrow> string list \<Rightarrow> string" where
  "first_date_field payslip [] = ''unknown''"
| "first_date_field payslip (field # rest) =
     (case map_of payslip field of
        Some (JStr date_val) \<Rightarrow> split_first ''T'' date_val
      | _ \<Rightarrow> first_date_field payslip rest)"

definition get_pay_date :: "payslip \<Rightarrow> string" where
  "get_pay_date payslip =
     first_date_field payslip
       [''payDate'', ''pay_date'', ''paymentDate'', ''date'', ''periodEndDate'']"

text \<open>\<^verbatim>\<open>_get_pdf_info\<close>: \<open>(statement_id, image_id)\<close>, each possibly \<^verbatim>\<open>None\<close>.\<close>

definition pdf_info_of_href :: "string \<Rightarrow> exn + (string option \<times> string option)" where
  "pdf_info_of_href h =
     (case split_second ''/payStatement/'' h of
        None \<Rightarrow> Inl IndexError
      | Some after_paystatement \<Rightarrow>
          (case split_second ''/images/'' h of
             None \<Rightarrow> Inl IndexError
           | Some filename \<Rightarrow>
               Inr (Some (split_first ''/images/'' after_paystatement),
                    if endswith filename ''.pdf''
                    then Some (take (length filename - 4) filename) else None)))"

definition get_pdf_info :: "payslip \<Rightarrow> exn + (string option \<times> string option)" where
  "get_pdf_info payslip =
     (case map_of payslip ''statementImageUri'' of
        None \<Rightarrow> Inr (None, None)
      | Some uri \<Rightarrow>
          (let href = href_of uri in
           if \<not> truthy href then Inr (None, None)
           else
             (case py_in ''/payStatement/'' href of
                Inl e \<Rightarrow> Inl e
              | Inr False \<Rightarrow> Inr (None, None)
              | Inr True \<Rightarrow>
                  (case py_in ''/images/'' href of
                     Inl e \<Rightarrow> Inl e
                   | Inr False \<Rightarrow> Inr (None, None)
                   | Inr True \<Rightarrow>
                       (case href of
                          JStr h \<Rightarrow> pdf_info_of_href h
                        | _ \<Rightarrow> Inl AttributeError)))))"

definition build_pdf_api_url :: "string \<Rightarrow> string \<Rightarrow> string" where
  "build_pdf_api_url statement_id image_id =
     IHCM_BASE_URL @ ''/api/pay/payslip/file'' @
     ''?statementId='' @ statement_id @ ''&imageId='' @ image_id @ ''&imageType=pdf''"

section \<open>Paths\<close>

text \<open>
  \<^verbatim>\<open>pathlib\<close> on POSIX keeps of a path text its components, the pieces between
  slashes that are neither empty nor a single dot, and whether it is absolute. Joining an
  absolute text to a path gives the absolute path alone.
\<close>

definition path_parts :: "string \<Rightarrow> string list" where
  "path_parts t = filter (\<lambda>c. c \<noteq> [] \<and> c \<noteq> ''.'') (py_split ''/'' t)"

fun join_parts :: "string list \<Rightarrow> string" where
  "join_parts [] = []"
| "join_parts [c] = c"
| "join_parts (c # cs) = c @ ''/'' @ join_parts cs"

text \<open>The text of an absolute path: exactly two leading slashes are kept, any other number
  is one.\<close>

definition absolute_text :: "string \<Rightarrow> string" where
  "absolute_text t =
     (if startswith t ''//'' \<and> \<not> startswith t ''///'' then ''//'' else ''/'') @
     join_parts (path_parts t)"

text \<open>A path built from the cache directory: under it, with its components below the
  cache directory, or an absolute path that replaced it.\<close>

datatype cache_path =
    UnderCache "string list"
  | Outside string

text \<open>The text that names the path from the cache directory (what \<open>files\<close> holds).\<close>

definition path_text :: "cache_path \<Rightarrow> string" where
  "path_text p = (case p of UnderCache cs \<Rightarrow> join_parts cs | Outside t \<Rightarrow> t)"

text \<open>\<^verbatim>\<open>str(p.relative_to(self.CACHE_DIR))\<close>: \<^verbatim>\<open>ValueError\<close> for a path that is
  not under the cache directory.\<close>

definition relative_to_cache :: "cache_path \<Rightarrow> exn + string" where
  "relative_to_cache p = (case p of UnderCache cs \<Rightarrow> Inr (join_parts cs) | Outside t \<Rightarrow> Inl ValueError)"

text \<open>\<^verbatim>\<open>_make_file_path\<close>:
  \<^verbatim>\<open>self.CACHE_DIR / year / month / f"{pay_date}.{extension}"\<close>.\<close>

definition make_file_path :: "world \<Rightarrow> string \<Rightarrow> string \<Rightarrow> cache_path" where
  "make_file_path w pd extension =
     (let (year, month) =
            (case fromisoformat w (split_first ''T'' pd) of
               None \<Rightarrow> (''unknown'', ''unknown'')
             | Some (y, m) \<Rightarrow>
                 (str_of_nat y, if m < 10 then CHR ''0'' # str_of_nat m else str_of_nat m));
          name = pd @ ''.'' @ extension
      in if startswith name ''/'' then Outside (absolute_text name)
         else UnderCache (year # month # path_parts name))"

text \<open>\<^verbatim>\<open>path.parent.mkdir(parents=True, exist_ok=True)\<close> and the write that follows:
  the exception raised, or the file in place and the event in the trace.\<close>

definition write_file :: "world \<Rightarrow> cache_path \<Rightarrow> event \<Rightarrow> state \<Rightarrow> exn option \<times> state" where
  "write_file w p ev s =
     (case write_error w (path_text p) of
        Some e \<Rightarrow> (Some e, s)
      | None \<Rightarrow> (None, s\<lparr>files := insert (path_text p) (files s), events := events s @ [ev]\<rparr>))"

section \<open>PayslipSyncer.sync\_all\<close>

text \<open>The first loop of \<^verbatim>\<open>sync_all\<close>: the records to download. A \<^verbatim>\<open>ValueError\<close>
  from \<^verbatim>\<open>_get_encoded_id\<close> is printed as a warning; any other exception leaves the run.\<close>

fun find_missing ::
  "world \<Rightarrow> payslip list \<Rightarrow> payslip list \<Rightarrow> state \<Rightarrow> (exn + payslip list) \<times> state" where
  "find_missing w [] missing s = (Inr missing, s)"
| "find_missing w (ps # rest) missing s =
     (case get_encoded_id (py_str w) ps of
        Inl ValueError \<Rightarrow> find_missing w rest missing (s\<lparr>events := events s @ [Warned ps]\<rparr>)
      | Inl e \<Rightarrow> (Inl e, s)
      | Inr encoded_id \<Rightarrow>
          if \<not> is_cached (index s) (files s) encoded_id True
          then find_missing w rest (missing @ [ps]) s
          else find_missing w rest missing s)"

text \<open>Truthiness of \<^verbatim>\<open>statement_id\<close> and \<^verbatim>\<open>image_id\<close>.\<close>

definition opt_truthy :: "string option \<Rightarrow> bool" where
  "opt_truthy x = (case x of None \<Rightarrow> False | Some v \<Rightarrow> v \<noteq> [])"

text \<open>The PDF part of the \<^verbatim>\<open>try\<close> block: \<^verbatim>\<open>pdf_rel_path\<close>, or the exception raised.\<close>

definition pdf_step ::
  "world \<Rightarrow> bool \<Rightarrow> string \<Rightarrow> string option \<Rightarrow> string option \<Rightarrow> state
     \<Rightarrow> (exn + string option) \<times> state" where
  "pdf_step w skip_pdf pd statement_id image_id s =
     (if \<not> skip_pdf \<and> opt_truthy statement_id \<and> opt_truthy image_id
      then
        (case fetch_payslip_pdf w (build_pdf_api_url (the statement_id) (the image_id)) of
           Inl e \<Rightarrow> (Inl e, s)
         | Inr None \<Rightarrow> (Inr None, s)
         | Inr (Some pdf_data) \<Rightarrow>
             if pdf_data \<noteq> []
             then (let pdf_path = make_file_path w pd ''pdf'' in
                   case write_file w pdf_path (WrotePdf (path_text pdf_path)) s of
                     (Some e, s1) \<Rightarrow> (Inl e, s1)
                   | (None, s1) \<Rightarrow>
                       (case relative_to_cache pdf_path of
                          Inl e \<Rightarrow> (Inl e, s1)
                        | Inr pdf_rel_path \<Rightarrow> (Inr (Some pdf_rel_path), s1)))
             else (Inr None, s))
      else (Inr None, s))"

text \<open>The \<^verbatim>\<open>try\<close> block for one record, in the order of the source: the detail
  request, the JSON file, the PDF part, the relative path of the JSON file, the index
  entry. The result is the exception raised inside the block, if any, and the state
  reached.\<close>

definition download_body ::
  "world \<Rightarrow> bool \<Rightarrow> string \<Rightarrow> string \<Rightarrow> string option \<Rightarrow> string option \<Rightarrow> state
     \<Rightarrow> exn option \<times> state" where
  "download_body w skip_pdf encoded_id pd statement_id image_id s =
     (case fetch_payslip_detail w encoded_id s of
        (Inl e, s1) \<Rightarrow> (Some e, s1)
      | (Inr detail, s1) \<Rightarrow>
          (let jp = make_file_path w pd ''json'' in
           case write_file w jp (WroteJson (path_text jp)) s1 of
             (Some e, s2) \<Rightarrow> (Some e, s2)
           | (None, s2) \<Rightarrow>
               (case pdf_step w skip_pdf pd statement_id image_id s2 of
                  (Inl e, s3) \<Rightarrow> (Some e, s3)
                | (Inr pdf_rel_path, s3) \<Rightarrow>
                    (case relative_to_cache jp of
                       Inl e \<Rightarrow> (Some e, s3)
                     | Inr json_rel_path \<Rightarrow>
                         (None, mark_cached w encoded_id pd json_rel_path pdf_rel_path s3)))))"

text \<open>\<^verbatim>\<open>"401" in str(e) or "expired" in str(e).lower()\<close>\<close>

definition is_expiry :: "string \<Rightarrow> bool" where
  "is_expiry msg = (str_contains ''401'' msg \<or> str_contains ''expired'' (lower msg))"

text \<open>The download loop: the number of records downloaded, or the exception that leaves
  the run.\<close>

fun download_loop ::
  "world \<Rightarrow> bool \<Rightarrow> payslip list \<Rightarrow> nat \<Rightarrow> state \<Rightarrow> (exn + nat) \<times> state" where
  "download_loop w skip_pdf [] newly_downloaded s = (Inr newly_downloaded, s)"
| "download_loop w skip_pdf (ps # rest) newly_downloaded s =
     (case get_encoded_id (py_str w) ps of
        Inl e \<Rightarrow> (Inl e, s)
      | Inr encoded_id \<Rightarrow>
          (case get_pdf_info ps of
             Inl e \<Rightarrow> (Inl e, s)
           | Inr (statement_id, image_id) \<Rightarrow>
               (case download_body w skip_pdf encoded_id (get_pay_date ps)
                       statement_id image_id s of
                  (None, s') \<Rightarrow> download_loop w skip_pdf rest (Suc newly_downloaded) s'
                | (Some (RuntimeError msg), s') \<Rightarrow>
                    if is_expiry msg then (Inl (RuntimeError msg), save w s')
                    else download_loop w skip_pdf rest newly_downloaded s'
                | (Some e, s') \<Rightarrow> (Inl e, s'))))"

text \<open>What a run ends in: the returned counts
  \<open>(total_available, already_cached, newly_downloaded)\<close>, or an exception.\<close>

datatype outcome =
    Returned int int int
  | Raised exn

text \<open>\<^verbatim>\<open>sync_all\<close> from the point where the listing has returned \<open>payslips\<close>.\<close>

definition sync_listed :: "world \<Rightarrow> bool \<Rightarrow> payslip list \<Rightarrow> state \<Rightarrow> outcome \<times> state" where
  "sync_listed w skip_pdf listed s =
     (if listed = [] then (Returned 0 0 0, s)
      else
        (case find_missing w listed [] s of
           (Inl e, s1) \<Rightarrow> (Raised e, s1)
         | (Inr missing, s1) \<Rightarrow>
             (let total_available = int (length listed);
                  already_cached = total_available - int (length missing)
              in if missing = []
                 then (Returned total_available already_cached 0, save w s1)
                 else
                   (case download_loop w skip_pdf missing 0 s1 of
                      (Inl e, s2) \<Rightarrow> (Raised e, s2)
                    | (Inr newly_downloaded, s2) \<Rightarrow>
                        (Returned total_available already_cached (int newly_downloaded),
                         save w s2)))))"

text \<open>\<^verbatim>\<open>sync_all\<close>: load the index, list, then the rest. \<open>None\<close> when the listing
  does not return.\<close>

definition sync_all :: "world \<Rightarrow> bool \<Rightarrow> state \<Rightarrow> (outcome \<times> state) option" where
  "sync_all w skip_pdf s =
     (case list_all_payslips w of
        None \<Rightarrow> None
      | Some (Inl e, requests) \<Rightarrow> Some (Raised e, load s)
      | Some (Inr listed, requests) \<Rightarrow> Some (sync_listed w skip_pdf listed (load s)))"

text \<open>\<^verbatim>\<open>main\<close>, the part around \<^verbatim>\<open>sync_all\<close>: the exit code. A
  \<^verbatim>\<open>RuntimeError\<close> and a \<^verbatim>\<open>KeyboardInterrupt\<close> are caught and give 1, the second
  with the message that progress has been saved; nothing is written to the index there.\<close>

definition main_sync :: "world \<Rightarrow> bool \<Rightarrow> state \<Rightarrow> ((exn + int) \<times> state) option" where
  "main_sync w skip_pdf s =
     (case sync_all w skip_pdf s of
        None \<Rightarrow> None
      | Some (Returned t c n, s') \<Rightarrow> Some (Inr 0, s')
      | Some (Raised (RuntimeError msg), s') \<Rightarrow> Some (Inr 1, s')
      | Some (Raised KeyboardInterrupt, s') \<Rightarrow> Some (Inr 1, s')
      | Some (Raised e, s') \<Rightarrow> Some (Inl e, s'))"


section \<open>IHCMExtractor (ihcm\_extractor.py)\<close>

text \<open>\<^verbatim>\<open>fetch_batch\<close>: \<open>(employee_list, total_count)\<close> or the exception raised.\<close>

definition fetch_batch :: "world \<Rightarrow> nat \<Rightarrow> nat \<Rightarrow> exn + (payslip list \<times> int)" where
  "fetch_batch w batch_size start =
     (case employee_post w start batch_size of
        Throws e \<Rightarrow> Inl e
      | Responds status_code txt decoded \<Rightarrow>
          if status_code = 401
          then Inl (RuntimeError
            (''Authentication failed (401). Session may have expired.'' @ [CHR 0x0A] @
             ''Try running with --clear-cache to force fresh authentication.''))
          else if status_code \<noteq> 200
          then Inl (RuntimeError
            (''API returned status '' @ str_of_int status_code @ '': '' @ take 200 txt))
          else if startswith (strip txt) ''<!doctype'' \<or> startswith (strip txt) ''<html''
          then Inl (RuntimeError
            ''Session expired - received login page. Please refresh credentials.'')
          else
            (case decoded of
               Inl msg \<Rightarrow> Inl ValueError
             | Inr (BodyDict d t) \<Rightarrow>
                 Inr (case d of None \<Rightarrow> [] | Some b \<Rightarrow> b, case t of None \<Rightarrow> 0 | Some n \<Rightarrow> n)
             | Inr _ \<Rightarrow> Inl AttributeError))"

text \<open>
  The \<^verbatim>\<open>while True\<close> loop of \<^verbatim>\<open>extract_all\<close>; \<open>tot\<close> is \<^verbatim>\<open>total\<close>,
  \<open>None\<close> until the first page has been read. The loop ends: the total is fixed by the
  first page and every further turn adds at least one record.
\<close>

function extract_loop ::
  "world \<Rightarrow> nat \<Rightarrow> nat \<Rightarrow> int option \<Rightarrow> payslip list \<Rightarrow> nat list
     \<Rightarrow> (exn + payslip list) \<times> nat list" where
  "extract_loop w batch_size start tot all_employees requests =
     (case fetch_batch w batch_size start of
        Inl e \<Rightarrow> (Inl e, requests @ [start])
      | Inr (batch, reported_total) \<Rightarrow>
          (let tot' = (case tot of None \<Rightarrow> reported_total | Some t \<Rightarrow> t) in
           if batch = [] then (Inr all_employees, requests @ [start])
           else if int (length (all_employees @ batch)) \<ge> tot'
           then (Inr (all_employees @ batch), requests @ [start])
           else extract_loop w batch_size (start + length batch) (Some tot')
                  (all_employees @ batch) (requests @ [start])))"
  by pat_completeness auto
termination
  apply (relation "measures
     [\<lambda>(w, b, s, t, a, r). (case t of None \<Rightarrow> 1 | Some _ \<Rightarrow> 0),
      \<lambda>(w, b, s, t, a, r). (case t of None \<Rightarrow> 0 | Some t \<Rightarrow> nat (t - int (length a)))]")
   apply (auto split: option.splits)
  done

declare extract_loop.simps [simp del]

definition extract_all :: "world \<Rightarrow> nat \<Rightarrow> (exn + payslip list) \<times> nat list" where
  "extract_all w batch_size = extract_loop w batch_size 0 None [] []"

section \<open>Concrete inputs\<close>

text \<open>The payload texts \<^verbatim>\<open>{"exp":0}\<close>, \<^verbatim>\<open>{"exp":2000}\<close>,
  \<^verbatim>\<open>{"exp":2000.5}\<close>, \<^verbatim>\<open>{"exp":1000000000000}\<close> and \<^verbatim>\<open>{"sub":1}\<close>.\<close>

definition exp0_text :: string where
  "exp0_text = ''{'' @ [CHR 0x22] @ ''exp'' @ [CHR 0x22] @ '':0}''"

definition exp2000_text :: string where
  "exp2000_text = ''{'' @ [CHR 0x22] @ ''exp'' @ [CHR 0x22] @ '':2000}''"

definition exp_fraction_text :: string where
  "exp_fraction_text = ''{'' @ [CHR 0x22] @ ''exp'' @ [CHR 0x22] @ '':2000.5}''"

definition exp_far_text :: string where
  "exp_far_text = ''{'' @ [CHR 0x22] @ ''exp'' @ [CHR 0x22] @ '':1000000000000}''"

definition sub1_text :: string where
  "sub1_text = ''{'' @ [CHR 0x22] @ ''sub'' @ [CHR 0x22] @ '':1}''"

text \<open>
  The library of the token check on the texts the examples use, as Python 3.11 on Linux
  answers them; on every other argument it is left unspecified.
  \<^item> \<^verbatim>\<open>eyJleHAiOjB9\<close> is the base64 text of \<^verbatim>\<open>{"exp":0}\<close>,
    \<^verbatim>\<open>eyJleHAiOjIwMDB9\<close> of \<^verbatim>\<open>{"exp":2000}\<close>, \<^verbatim>\<open>eyJleHAiOjIwMDAuNX0=\<close> of
    \<^verbatim>\<open>{"exp":2000.5}\<close>, \<^verbatim>\<open>eyJleHAiOjEwMDAwMDAwMDAwMDB9\<close> of
    \<^verbatim>\<open>{"exp":1000000000000}\<close>, \<^verbatim>\<open>eyJzdWIiOjF9\<close> of \<^verbatim>\<open>{"sub":1}\<close>,
    \<^verbatim>\<open>WzFd\<close> of \<^verbatim>\<open>[1]\<close> and \<^verbatim>\<open>bm90IGpzb24=\<close> of \<^verbatim>\<open>not json\<close>;
    \<^verbatim>\<open>a===\<close> is rejected with \<^verbatim>\<open>binascii.Error\<close> (one data character).
  \<^item> \<^verbatim>\<open>json.loads\<close> rejects \<^verbatim>\<open>not json\<close> with \<^verbatim>\<open>JSONDecodeError\<close>.
  \<^item> \<^verbatim>\<open>datetime.fromtimestamp\<close> gives the times 2000 and 2000.5 back and rejects
    1000000000000 with \<^verbatim>\<open>ValueError\<close> (year 33658 is out of range).
\<close>

definition example_lib :: token_lib where
  "example_lib =
     \<lparr>urlsafe_b64decode =
        (\<lambda>s. if s = ''eyJleHAiOjB9'' then Inr exp0_text
             else if s = ''eyJleHAiOjIwMDB9'' then Inr exp2000_text
             else if s = ''eyJleHAiOjIwMDAuNX0='' then Inr exp_fraction_text
             else if s = ''eyJleHAiOjEwMDAwMDAwMDAwMDB9'' then Inr exp_far_text
             else if s = ''eyJzdWIiOjF9'' then Inr sub1_text
             else if s = ''WzFd'' then Inr ''[1]''
             else if s = ''bm90IGpzb24='' then Inr ''not json''
             else if s = ''a==='' then Inl ValueError
             else undefined),
      json_loads =
        (\<lambda>s. if s = exp0_text then Inr (JDict [(''exp'', JInt 0)])
             else if s = exp2000_text then Inr (JDict [(''exp'', JInt 2000)])
             else if s = exp_fraction_text then Inr (JDict [(''exp'', JFloat (4001 / 2))])
             else if s = exp_far_text then Inr (JDict [(''exp'', JInt 1000000000000)])
             else if s = sub1_text then Inr (JDict [(''sub'', JInt 1)])
             else if s = ''[1]'' then Inr (JList [JInt 1])
             else if s = ''not json'' then Inl ValueError
             else undefined),
      fromtimestamp =
        (\<lambda>v. if v = JInt 2000 then Inr 2000
             else if v = JFloat (4001 / 2) then Inr (4001 / 2)
             else if v = JInt 1000000000000 then Inl ValueError
             else undefined)\<rparr>"

section \<open>The pagination contract\<close>

text \<open>The batch and the total of the page at an offset, as \<^verbatim>\<open>list_all_payslips\<close>
  and \<^verbatim>\<open>extract_all\<close> read them (an empty batch and 0 where the request fails or the
  body has another shape).\<close>

definition page_batch :: "world \<Rightarrow> nat \<Rightarrow> nat \<Rightarrow> payslip list" where
  "page_batch w batch_size start =
     (case query_page w start batch_size of Page batch tot \<Rightarrow> batch | _ \<Rightarrow> [])"

definition page_total :: "world \<Rightarrow> nat \<Rightarrow> nat \<Rightarrow> int" where
  "page_total w batch_size start =
     (case query_page w start batch_size of Page batch tot \<Rightarrow> tot | _ \<Rightarrow> 0)"

definition employee_batch :: "world \<Rightarrow> nat \<Rightarrow> nat \<Rightarrow> payslip list" where
  "employee_batch w batch_size start =
     (case fetch_batch w batch_size start of Inr (batch, tot) \<Rightarrow> batch | Inl e \<Rightarrow> [])"

definition employee_total :: "world \<Rightarrow> nat \<Rightarrow> nat \<Rightarrow> int" where
  "employee_total w batch_size start =
     (case fetch_batch w batch_size start of Inr (batch, tot) \<Rightarrow> tot | Inl e \<Rightarrow> 0)"

text \<open>
  The pagination contract, for the offsets \<open>offs\<close> requested and the records \<open>res\<close>
  returned by a listing that starts at \<open>start\<close> with \<open>acc\<close> already collected:
  the first offset is \<open>start\<close>; each next offset is the previous one plus the number of
  records the previous page held; the result is the pages in order; every page but the
  last is non-empty and leaves the count below the total; the last page is empty or
  brings the count to the total.
\<close>

definition paged_trace ::
  "(nat \<Rightarrow> payslip list) \<Rightarrow> (nat \<Rightarrow> int) \<Rightarrow> nat \<Rightarrow> payslip list \<Rightarrow> nat list \<Rightarrow> payslip list
     \<Rightarrow> bool" where
  "paged_trace batch_at total_at start acc offs res =
     (offs \<noteq> [] \<and> hd offs = start \<and> (\<forall>off\<in>set offs. start \<le> off) \<and>
      successively (\<lambda>a b. b = a + length (batch_at a)) offs \<and>
      res = acc @ concat (map batch_at offs) \<and>
      (\<forall>off\<in>set (butlast offs). batch_at off \<noteq> [] \<and>
           int (length acc + (off - start) + length (batch_at off)) < total_at off) \<and>
      (batch_at (last offs) = [] \<or> total_at (last offs) \<le> int (length res)))"

section \<open>Concrete inputs: listing\<close>

text \<open>The scenario of two short pages: the service reports a total of 4 and returns two
  records at offset 0 and two at offset 2, whatever the limit asked.\<close>

definition rec_n :: "int \<Rightarrow> payslip" where
  "rec_n n = [(''id'', JInt n)]"

definition short_pages :: "nat \<Rightarrow> nat \<Rightarrow> body http" where
  "short_pages start limit =
     Responds 200 ''{}''
       (Inr (BodyDict
          (Some (if start = 0 then [rec_n 1, rec_n 2]
                 else if start = 2 then [rec_n 3, rec_n 4] else []))
          (Some 4)))"

definition short_pages_world :: world where
  "short_pages_world =
     \<lparr>query_post = short_pages,
      employee_post = short_pages,
      detail_get = (\<lambda>i. Throws OtherError),
      pdf_get = (\<lambda>u. Inr None),
      write_error = (\<lambda>p. None),
      now_iso = (\<lambda>n. []),
      fromisoformat = (\<lambda>d. None),
      py_str = (\<lambda>v. [])\<rparr>"


section \<open>Notions used to state the properties of a run\<close>

text \<open>The identifiers of the detail requests, and of the index entries written, in a trace.\<close>

fun fetched_ids :: "event list \<Rightarrow> string list" where
  "fetched_ids [] = []"
| "fetched_ids (Fetched i # es) = i # fetched_ids es"
| "fetched_ids (e # es) = fetched_ids es"

fun marked_ids :: "event list \<Rightarrow> string list" where
  "marked_ids [] = []"
| "marked_ids (Marked i # es) = i # marked_ids es"
| "marked_ids (e # es) = marked_ids es"

text \<open>The exception the \<^verbatim>\<open>try\<close> block raises for a record, if any. It depends on
  the world and the record only, not on the state the block starts from; it is read off
  the block started from the state before any run.\<close>

definition body_raises ::
  "world \<Rightarrow> bool \<Rightarrow> string \<Rightarrow> string \<Rightarrow> string option \<Rightarrow> string option \<Rightarrow> exn option" where
  "body_raises w skip_pdf encoded_id pd statement_id image_id =
     fst (download_body w skip_pdf encoded_id pd statement_id image_id fresh_state)"

text \<open>Every step of the download loop succeeds for the record: an identifier is
  extracted, the PDF identifiers are read, and the \<^verbatim>\<open>try\<close> block raises nothing (no
  request fails, no file write fails, the paths lie under the cache directory).\<close>

definition record_downloads :: "world \<Rightarrow> bool \<Rightarrow> payslip \<Rightarrow> bool" where
  "record_downloads w skip_pdf ps =
     (case get_encoded_id (py_str w) ps of
        Inl e \<Rightarrow> False
      | Inr encoded_id \<Rightarrow>
          (case get_pdf_info ps of
             Inl e \<Rightarrow> False
           | Inr (statement_id, image_id) \<Rightarrow>
               body_raises w skip_pdf encoded_id (get_pay_date ps) statement_id image_id = None))"

text \<open>The index file read back: what \<^verbatim>\<open>load\<close> finds in it.\<close>

definition stored_payslips :: "state \<Rightarrow> (string \<times> entry) list" where
  "stored_payslips s = payslips (index_load (disk_index s))"

definition stored_total_count :: "state \<Rightarrow> nat" where
  "stored_total_count s = total_count (index_load (disk_index s))"

text \<open>A record is satisfied in a state on disk: \<^verbatim>\<open>is_cached\<close> on the loaded index.\<close>

definition satisfied :: "state \<Rightarrow> string \<Rightarrow> bool" where
  "satisfied s encoded_id = is_cached (index_load (disk_index s)) (files s) encoded_id True"

section \<open>Concrete inputs: runs\<close>

text \<open>A record with a detail link and a pay date; a record with no identifier at all.\<close>

definition slip :: "string \<Rightarrow> string \<Rightarrow> payslip" where
  "slip i d =
     [(''payDetailUri'', JDict [(''href'', JStr (''/v1_0/O/A/payStatement/'' @ i))]),
      (''payDate'', JStr d)]"



definition nameless :: payslip where
  "nameless = [(''payDate'', JStr ''2024-01-31'')]"

text \<open>A service that lists \<open>rs\<close> in one page and answers detail requests by \<open>detail\<close>.\<close>

definition listing_of :: "payslip list \<Rightarrow> nat \<Rightarrow> nat \<Rightarrow> body http" where
  "listing_of rs start limit =
     Responds 200 ''{}''
       (Inr (BodyDict (Some (if start = 0 then rs else [])) (Some (int (length rs)))))"

definition plain_world :: "payslip list \<Rightarrow> (string \<Rightarrow> json http) \<Rightarrow> world" where
  "plain_world rs detail =
     \<lparr>query_post = listing_of rs,
      employee_post = listing_of rs,
      detail_get = detail,
      pdf_get = (\<lambda>u. Inr None),
      write_error = (\<lambda>p. None),
      now_iso = (\<lambda>n. ''2024-03-01T12:00:00''),
      fromisoformat =
        (\<lambda>d. if d = ''2024-01-31'' then Some (2024, 1)
             else if d = ''2024-02-29'' then Some (2024, 2) else None),
      py_str = (\<lambda>v. case v of JStr t \<Rightarrow> t | _ \<Rightarrow> ''?'')\<rparr>"

definition all_ok :: "string \<Rightarrow> json http" where
  "all_ok i = Responds 200 ''{}'' (Inr (JDict []))"

definition interrupted_at_B :: "string \<Rightarrow> json http" where
  "interrupted_at_B i = (if i = ''B'' then Throws KeyboardInterrupt else all_ok i)"

definition expired_at_B :: "string \<Rightarrow> json http" where
  "expired_at_B i = (if i = ''B'' then Responds 401 [] (Inl []) else all_ok i)"

definition two_slips :: "payslip list" where
  "two_slips = [slip ''A'' ''2024-01-31'', slip ''B'' ''2024-02-29'']"

definition two_slips_B_first :: "payslip list" where
  "two_slips_B_first = [slip ''B'' ''2024-02-29'', slip ''A'' ''2024-01-31'']"


text \<open>The test of the first loop of \<^verbatim>\<open>sync_all\<close>: an identifier is extracted and
  \<^verbatim>\<open>is_cached\<close> answers false.\<close>

definition is_missing :: "world \<Rightarrow> state \<Rightarrow> payslip \<Rightarrow> bool" where
  "is_missing w s ps =
     (case get_encoded_id (py_str w) ps of
        Inl e \<Rightarrow> False
      | Inr i \<Rightarrow> \<not> is_cached (index s) (files s) i True)"

text \<open>A state in which record \<^verbatim>\<open>A\<close> is satisfied, and the same state after its JSON
  file has been deleted.\<close>

definition entry_A :: entry where
  "entry_A =
     \<lparr>pay_date = ''2024-01-31'', json_path = Some ''2024/01/2024-01-31.json'',
      pdf_path = None, cached_at = ''2024-03-01T12:00:00''\<rparr>"

definition state_with_A :: state where
  "state_with_A =
     \<lparr>index = \<lparr>payslips = [], total_count = 0, last_sync = None\<rparr>,
      disk_index = Stored (Some [(''A'', entry_A)]) (Some 1) (Some ''2024-03-01T12:00:00''),
      files = {''2024/01/2024-01-31.json''}, clock = 0, events = []\<rparr>"

definition state_dangling_A :: state where
  "state_dangling_A = state_with_A\<lparr>files := {}\<rparr>"


section \<open>Properties of the token check\<close>

text \<open>
  C7, as amended. For a three-part token whose middle segment decodes to a JSON object:
  without an \<^verbatim>\<open>exp\<close> claim the check with the 5-minute buffer answers false; with an
  \<^verbatim>\<open>exp\<close> that is a number \<open>x\<close> other than 0 and that \<^verbatim>\<open>datetime.fromtimestamp\<close>
  represents, it answers true exactly when \<open>x - now < 300\<close>, so true for an \<^verbatim>\<open>exp\<close> in
  the past and false for one 10 minutes ahead; with an \<^verbatim>\<open>exp\<close> that
  \<^verbatim>\<open>datetime.fromtimestamp\<close> rejects with \<^verbatim>\<open>ValueError\<close> it answers true.
\<close>

theorem C7_token_expiry_amended:
  assumes "py_split ''.'' tok = [h, p, sg]"
    and "urlsafe_b64decode L (add_padding p) = Inr bytes"
    and "json_loads L bytes = Inr (JDict kvs)"
  shows "(map_of kvs ''exp'' = None \<longrightarrow> is_token_expired L now tok 5 = Inr False) \<and>
         (\<forall>v x. map_of kvs ''exp'' = Some v \<and> json_number v = Some x \<and> x \<noteq> 0 \<and>
               fromtimestamp L v = Inr x \<longrightarrow>
               is_token_expired L now tok 5 = Inr (x - now < 300) \<and>
               (x < now \<longrightarrow> is_token_expired L now tok 5 = Inr True) \<and>
               (x = now + 600 \<longrightarrow> is_token_expired L now tok 5 = Inr False)) \<and>
         (\<forall>v. map_of kvs ''exp'' = Some v \<and> truthy v \<and> fromtimestamp L v = Inl ValueError \<longrightarrow>
               is_token_expired L now tok 5 = Inr True)"
proof -
  have t: "truthy v" if "json_number v = Some x" "x \<noteq> 0" for v x
    using that by (cases v) (auto split: if_splits)
  show ?thesis
    using assms t
    by (auto simp: is_token_expired_def is_token_expired_body_def payload_get_def dict_get_def)
qed

lemma split_exp2000:
  "py_split ''.'' ''h.eyJleHAiOjIwMDB9.s'' = [''h'', ''eyJleHAiOjIwMDB9'', ''s'']"
  by (simp add: startswith_def)

lemma split_fraction:
  "py_split ''.'' ''h.eyJleHAiOjIwMDAuNX0.s'' = [''h'', ''eyJleHAiOjIwMDAuNX0'', ''s'']"
  by (simp add: startswith_def)

lemma split_far:
  "py_split ''.'' ''h.eyJleHAiOjEwMDAwMDAwMDAwMDB9.s''
     = [''h'', ''eyJleHAiOjEwMDAwMDAwMDAwMDB9'', ''s'']"
  by (simp add: startswith_def)

lemma split_sub1:
  "py_split ''.'' ''h.eyJzdWIiOjF9.s'' = [''h'', ''eyJzdWIiOjF9'', ''s'']"
  by (simp add: startswith_def)

lemma decode_exp2000:
  "urlsafe_b64decode example_lib (add_padding ''eyJleHAiOjIwMDB9'') = Inr exp2000_text"
  by (simp add: example_lib_def add_padding_def)

lemma decode_fraction:
  "urlsafe_b64decode example_lib (add_padding ''eyJleHAiOjIwMDAuNX0'') = Inr exp_fraction_text"
  by (simp add: example_lib_def add_padding_def)

lemma decode_far:
  "urlsafe_b64decode example_lib (add_padding ''eyJleHAiOjEwMDAwMDAwMDAwMDB9'') = Inr exp_far_text"
  by (simp add: example_lib_def add_padding_def)

lemma decode_sub1:
  "urlsafe_b64decode example_lib (add_padding ''eyJzdWIiOjF9'') = Inr sub1_text"
  by (simp add: example_lib_def add_padding_def)

lemmas payload_texts =
  exp0_text_def exp2000_text_def exp_fraction_text_def exp_far_text_def sub1_text_def

lemma loads_exp2000:
  "json_loads example_lib exp2000_text = Inr (JDict [(''exp'', JInt 2000)])"
  by (simp add: example_lib_def payload_texts)

lemma loads_fraction:
  "json_loads example_lib exp_fraction_text = Inr (JDict [(''exp'', JFloat (4001 / 2))])"
  by (simp add: example_lib_def payload_texts)

lemma loads_far:
  "json_loads example_lib exp_far_text = Inr (JDict [(''exp'', JInt 1000000000000)])"
  by (simp add: example_lib_def payload_texts)

lemma loads_sub1:
  "json_loads example_lib sub1_text = Inr (JDict [(''sub'', JInt 1)])"
  by (simp add: example_lib_def payload_texts)

lemma fromtimestamp_examples:
  "fromtimestamp example_lib (JInt 2000) = Inr 2000"
  "fromtimestamp example_lib (JFloat (4001 / 2)) = Inr (4001 / 2)"
  "fromtimestamp example_lib (JInt 1000000000000) = Inl ValueError"
  by (simp_all add: example_lib_def)

theorem C7_token_expiry_witness:
  "is_token_expired example_lib 1000 ''h.eyJleHAiOjIwMDB9.s'' 5 = Inr False \<and>
   is_token_expired example_lib 1400 ''h.eyJleHAiOjIwMDB9.s'' 5 = Inr False \<and>
   is_token_expired example_lib 1701 ''h.eyJleHAiOjIwMDB9.s'' 5 = Inr True \<and>
   is_token_expired example_lib 3000 ''h.eyJleHAiOjIwMDB9.s'' 5 = Inr True \<and>
   is_token_expired example_lib 1000 ''h.eyJleHAiOjIwMDAuNX0.s'' 5 = Inr False \<and>
   is_token_expired example_lib 3000 ''h.eyJzdWIiOjF9.s'' 5 = Inr False \<and>
   is_token_expired example_lib 3000 ''h.eyJleHAiOjEwMDAwMDAwMDAwMDB9.s'' 5 = Inr True"
proof -
  note int_case = C7_token_expiry_amended [OF split_exp2000 decode_exp2000 loads_exp2000,
      THEN conjunct2, THEN conjunct1, rule_format, of "JInt 2000" 2000]
  have a: "is_token_expired example_lib 1000 ''h.eyJleHAiOjIwMDB9.s'' 5 = Inr False"
    using int_case [of 1000] by (simp add: fromtimestamp_examples)
  have b: "is_token_expired example_lib 1400 ''h.eyJleHAiOjIwMDB9.s'' 5 = Inr False"
    using int_case [of 1400] by (simp add: fromtimestamp_examples)
  have c: "is_token_expired example_lib 1701 ''h.eyJleHAiOjIwMDB9.s'' 5 = Inr True"
    using int_case [of 1701] by (simp add: fromtimestamp_examples)
  have d: "is_token_expired example_lib 3000 ''h.eyJleHAiOjIwMDB9.s'' 5 = Inr True"
    using int_case [of 3000] by (simp add: fromtimestamp_examples)
  have e: "is_token_expired example_lib 1000 ''h.eyJleHAiOjIwMDAuNX0.s'' 5 = Inr False"
    using C7_token_expiry_amended [OF split_fraction decode_fraction loads_fraction,
        THEN conjunct2, THEN conjunct1, rule_format, of "JFloat (4001 / 2)" "4001 / 2" 1000]
    by (simp add: fromtimestamp_examples)
  have f: "is_token_expired example_lib 3000 ''h.eyJzdWIiOjF9.s'' 5 = Inr False"
    using C7_token_expiry_amended [OF split_sub1 decode_sub1 loads_sub1, THEN conjunct1, of 3000]
    by simp
  have g: "is_token_expired example_lib 3000 ''h.eyJleHAiOjEwMDAwMDAwMDAwMDB9.s'' 5 = Inr True"
    using C7_token_expiry_amended [OF split_far decode_far loads_far,
        THEN conjunct2, THEN conjunct2, rule_format, of "JInt 1000000000000" 3000]
    by (simp add: fromtimestamp_examples)
  from a b c d e f g show ?thesis by simp
qed

text \<open>
  C7 as stated fails. The token \<^verbatim>\<open>h.eyJleHAiOjEwMDAwMDAwMDAwMDB9.s\<close> has three parts and
  its middle segment decodes to the object \<^verbatim>\<open>{"exp":1000000000000}\<close>. At time 1000
  its \<^verbatim>\<open>exp\<close> is far ahead (\<open>exp - now < 300\<close> is false), but
  \<^verbatim>\<open>datetime.fromtimestamp\<close> raises \<^verbatim>\<open>ValueError\<close> on it, which the \<^verbatim>\<open>except\<close>
  clause answers with true.
\<close>

theorem C7_token_expiry_counterexample:
  "py_split ''.'' ''h.eyJleHAiOjEwMDAwMDAwMDAwMDB9.s''
     = [''h'', ''eyJleHAiOjEwMDAwMDAwMDAwMDB9'', ''s''] \<and>
   urlsafe_b64decode example_lib (add_padding ''eyJleHAiOjEwMDAwMDAwMDAwMDB9'')
     = Inr exp_far_text \<and>
   json_loads example_lib exp_far_text = Inr (JDict [(''exp'', JInt 1000000000000)]) \<and>
   \<not> (real_of_int 1000000000000 - 1000 < 300) \<and>
   is_token_expired example_lib 1000 ''h.eyJleHAiOjEwMDAwMDAwMDAwMDB9.s'' 5 = Inr True"
  by (simp add: is_token_expired_def is_token_expired_body_def payload_get_def dict_get_def
      startswith_def example_lib_def add_padding_def payload_texts)

text \<open>
  The guard \<^verbatim>\<open>if not exp_timestamp\<close> also takes an \<^verbatim>\<open>exp\<close> of 0 for a missing claim:
  for the token \<^verbatim>\<open>h.eyJleHAiOjB9.s\<close>, whose payload is \<^verbatim>\<open>{"exp":0}\<close>, the check
  answers false at time 1000.
\<close>

lemma token_exp_zero:
  "py_split ''.'' ''h.eyJleHAiOjB9.s'' = [''h'', ''eyJleHAiOjB9'', ''s''] \<and>
   urlsafe_b64decode example_lib (add_padding ''eyJleHAiOjB9'') = Inr exp0_text \<and>
   json_loads example_lib exp0_text = Inr (JDict [(''exp'', JInt 0)]) \<and>
   real_of_int 0 - 1000 < 300 \<and>
   is_token_expired example_lib 1000 ''h.eyJleHAiOjB9.s'' 5 = Inr False"
  by (simp add: is_token_expired_def is_token_expired_body_def payload_get_def dict_get_def
      startswith_def example_lib_def add_padding_def payload_texts)











section \<open>Properties of the listing\<close>

lemma paged_trace_stop:
  assumes "batch_at start = [] \<or> total_at start \<le> int (length (acc @ batch_at start))"
  shows "paged_trace batch_at total_at start acc [start] (acc @ batch_at start)"
  using assms by (auto simp: paged_trace_def)

lemma paged_trace_step:
  assumes ne: "batch_at start \<noteq> []"
    and lt: "int (length (acc @ batch_at start)) < total_at start"
    and rec: "paged_trace batch_at total_at (start + length (batch_at start))
                (acc @ batch_at start) offs res"
  shows "paged_trace batch_at total_at start acc (start # offs) res"
proof -
  let ?b = "batch_at start"
  from rec have o: "offs \<noteq> []" and h: "hd offs = start + length ?b"
    and ge: "\<forall>off\<in>set offs. start + length ?b \<le> off"
    and su: "successively (\<lambda>a b. b = a + length (batch_at a)) offs"
    and re: "res = (acc @ ?b) @ concat (map batch_at offs)"
    and bl: "\<forall>off\<in>set (butlast offs). batch_at off \<noteq> [] \<and>
           int (length (acc @ ?b) + (off - (start + length ?b)) + length (batch_at off))
             < total_at off"
    and la: "batch_at (last offs) = [] \<or> total_at (last offs) \<le> int (length res)"
    by (auto simp: paged_trace_def)
  obtain o1 rest where offs: "offs = o1 # rest" using o by (cases offs) auto
  have 1: "successively (\<lambda>a b. b = a + length (batch_at a)) (start # offs)"
    using su h offs by simp
  have 2: "res = acc @ concat (map batch_at (start # offs))"
    using re by simp
  have 3: "\<forall>off\<in>set (butlast (start # offs)). batch_at off \<noteq> [] \<and>
           int (length acc + (off - start) + length (batch_at off)) < total_at off"
  proof
    fix off assume "off \<in> set (butlast (start # offs))"
    then have "off = start \<or> off \<in> set (butlast offs)" using o by auto
    then show "batch_at off \<noteq> [] \<and>
           int (length acc + (off - start) + length (batch_at off)) < total_at off"
    proof
      assume "off = start" then show ?thesis using ne lt by auto
    next
      assume m: "off \<in> set (butlast offs)"
      then have "off \<in> set offs" by (rule in_set_butlastD)
      with ge have g: "start + length ?b \<le> off" by blast
      have "length (acc @ ?b) + (off - (start + length ?b)) = length acc + (off - start)"
        using g by simp
      with bl m show ?thesis by auto
    qed
  qed
  have 4: "\<forall>off\<in>set (start # offs). start \<le> off" using ge by auto
  show ?thesis unfolding paged_trace_def using 1 2 3 4 la o by simp
qed

lemma succ_offsets_ge:
  "successively (\<lambda>a b. b = a + f a) (x # xs) \<Longrightarrow> \<forall>y\<in>set (x # xs). x \<le> (y::nat)"
proof (induction xs arbitrary: x)
  case Nil
  then show ?case by simp
next
  case (Cons z zs)
  from Cons.prems have z: "z = x + f x"
    and s: "successively (\<lambda>a b. b = a + f a) (z # zs)" by auto
  from Cons.IH [OF s] z show ?case by auto
qed

lemma paged_trace_single:
  assumes "paged_trace batch_at total_at start acc [off] res"
  shows "off = start \<and> res = acc @ batch_at start \<and>
         (batch_at start = [] \<or> total_at start \<le> int (length (acc @ batch_at start)))"
  using assms by (auto simp: paged_trace_def)

lemma paged_trace_tail:
  assumes t: "paged_trace batch_at total_at start acc (off # o1 # rest) res"
  shows "off = start \<and> batch_at start \<noteq> [] \<and>
         int (length (acc @ batch_at start)) < total_at start \<and>
         paged_trace batch_at total_at (start + length (batch_at start)) (acc @ batch_at start)
           (o1 # rest) res"
proof -
  let ?b = "batch_at start"
  from t [unfolded paged_trace_def]
  have st0: "hd (off # o1 # rest) = start"
    and su0: "successively (\<lambda>a b. b = a + length (batch_at a)) (off # o1 # rest)"
    and re0: "res = acc @ concat (map batch_at (off # o1 # rest))"
    and bl0: "\<forall>x\<in>set (butlast (off # o1 # rest)). batch_at x \<noteq> [] \<and>
           int (length acc + (x - start) + length (batch_at x)) < total_at x"
    and la0: "batch_at (last (off # o1 # rest)) = [] \<or>
           total_at (last (off # o1 # rest)) \<le> int (length res)"
    by blast+
  from st0 have st: "off = start" by simp
  from su0 st have o1: "o1 = start + length ?b" by simp
  from su0 have su': "successively (\<lambda>a b. b = a + length (batch_at a)) (o1 # rest)"
    by auto
  from bl0 st have bl: "\<forall>x\<in>set (butlast (start # o1 # rest)). batch_at x \<noteq> [] \<and>
           int (length acc + (x - start) + length (batch_at x)) < total_at x" by simp
  from re0 st have re: "res = (acc @ ?b) @ concat (map batch_at (o1 # rest))" by simp
  from la0 have la: "batch_at (last (o1 # rest)) = [] \<or>
           total_at (last (o1 # rest)) \<le> int (length res)" by simp
  from succ_offsets_ge [OF su'] have ge: "\<forall>y\<in>set (o1 # rest). o1 \<le> y" .
  from bl have ne: "?b \<noteq> []" and lt: "int (length (acc @ ?b)) < total_at start" by simp_all
  have bl': "\<forall>x\<in>set (butlast (o1 # rest)). batch_at x \<noteq> [] \<and>
           int (length (acc @ ?b) + (x - o1) + length (batch_at x)) < total_at x"
  proof
    fix x assume m: "x \<in> set (butlast (o1 # rest))"
    then have "x \<in> set (o1 # rest)" by (rule in_set_butlastD)
    with ge have g: "o1 \<le> x" by blast
    from m have "x \<in> set (butlast (start # o1 # rest))" by simp
    with bl have b: "batch_at x \<noteq> [] \<and>
           int (length acc + (x - start) + length (batch_at x)) < total_at x" by blast
    have "length (acc @ ?b) + (x - o1) = length acc + (x - start)" using g o1 by simp
    with b show "batch_at x \<noteq> [] \<and>
           int (length (acc @ ?b) + (x - o1) + length (batch_at x)) < total_at x" by simp
  qed
  have "paged_trace batch_at total_at o1 (acc @ ?b) (o1 # rest) res"
    unfolding paged_trace_def using ge su' re bl' la by (intro conjI) simp_all
  with st ne lt o1 show ?thesis by simp
qed

lemma list_loop_trace:
  assumes ret: "list_loop w bs start acc reqs = Some y"
  shows "case y of
           (Inr res, reqs') \<Rightarrow>
              \<exists>offs. reqs' = reqs @ offs \<and>
                paged_trace (page_batch w bs) (page_total w bs) start acc offs res \<and>
                (\<forall>e. query_page w (last offs) bs \<noteq> PageError e)
         | (Inl e, reqs') \<Rightarrow> True"
proof (rule list_loop.raw_induct
    [where P = "\<lambda>w bs start acc reqs y.
       case y of
         (Inr res, reqs') \<Rightarrow>
            \<exists>offs. reqs' = reqs @ offs \<and>
              paged_trace (page_batch w bs) (page_total w bs) start acc offs res \<and>
              (\<forall>e. query_page w (last offs) bs \<noteq> PageError e)
       | (Inl e, reqs') \<Rightarrow> True", OF _ ret])
  fix f w bs start acc reqs y
  assume IH0: "\<And>w bs start acc reqs y. f w bs start acc reqs = Some y \<Longrightarrow>
       (case y of
         (Inr res, reqs') \<Rightarrow>
            \<exists>offs. reqs' = reqs @ offs \<and>
              paged_trace (page_batch w bs) (page_total w bs) start acc offs res \<and>
              (\<forall>e. query_page w (last offs) bs \<noteq> PageError e)
       | (Inl e, reqs') \<Rightarrow> True)"
    and body: "(case query_page w start bs of
      Page batch tot \<Rightarrow>
        if tot \<le> int (length (acc @ batch)) \<or> length batch = 0
        then Some (Inr (acc @ batch), reqs @ [start])
        else f w bs (start + length batch) (acc @ batch) (reqs @ [start])
      | PageUnexpected \<Rightarrow> Some (Inr acc, reqs @ [start])
      | PageError e \<Rightarrow> Some (Inl e, reqs @ [start])) = Some y"
  let ?T = "paged_trace (page_batch w bs) (page_total w bs)"
  let ?ok = "\<lambda>offs. \<forall>e. query_page w (last offs) bs \<noteq> PageError e"
  show "case y of
         (Inr res, reqs') \<Rightarrow> \<exists>offs. reqs' = reqs @ offs \<and> ?T start acc offs res \<and> ?ok offs
       | (Inl e, reqs') \<Rightarrow> True"
  proof (cases "query_page w start bs")
    case (Page b t)
    then have pb: "page_batch w bs start = b" and pt: "page_total w bs start = t"
      by (simp_all add: page_batch_def page_total_def)
    from Page have ok: "?ok [start]" by simp
    show ?thesis
    proof (cases "t \<le> int (length (acc @ b)) \<or> length b = 0")
      case True
      with Page body have y: "y = (Inr (acc @ b), reqs @ [start])" by auto
      from True pb pt have "page_batch w bs start = [] \<or>
          page_total w bs start \<le> int (length (acc @ page_batch w bs start))" by auto
      from paged_trace_stop [of "page_batch w bs" start "page_total w bs" acc, OF this] pb
      have "?T start acc [start] (acc @ b)" by simp
      with ok y show ?thesis by auto
    next
      case False
      with Page body have r: "f w bs (start + length b) (acc @ b) (reqs @ [start]) = Some y"
        by auto
      have IH: "(case y of
          (Inr res, reqs') \<Rightarrow> \<exists>offs. reqs' = (reqs @ [start]) @ offs \<and>
                    ?T (start + length b) (acc @ b) offs res \<and> ?ok offs
        | (Inl e, reqs') \<Rightarrow> True)"
        by (rule IH0 [OF r])
      obtain a reqs' where y: "y = (a, reqs')" by (cases y)
      show ?thesis
      proof (cases a)
        case (Inl e)
        with y show ?thesis by simp
      next
        case (Inr res)
        with IH y obtain offs where o: "reqs' = (reqs @ [start]) @ offs"
          and t: "?T (start + length b) (acc @ b) offs res" and k: "?ok offs" by auto
        from t have ne: "offs \<noteq> []" by (simp add: paged_trace_def)
        from False pb pt have "page_batch w bs start \<noteq> []"
          "int (length (acc @ page_batch w bs start)) < page_total w bs start" by auto
        from paged_trace_step [of "page_batch w bs" start acc "page_total w bs" offs res, OF this]
          t pb have "?T start acc (start # offs) res" by simp
        moreover from k ne have "?ok (start # offs)" by simp
        moreover from o have "reqs' = reqs @ (start # offs)" by simp
        ultimately show ?thesis using y Inr by auto
      qed
    qed
  next
    case PageUnexpected
    then have pb: "page_batch w bs start = []" by (simp add: page_batch_def)
    from PageUnexpected have ok: "?ok [start]" by simp
    from PageUnexpected body have y: "y = (Inr acc, reqs @ [start])" by auto
    from paged_trace_stop [of "page_batch w bs" start "page_total w bs" acc] pb
    have "?T start acc [start] acc" by simp
    with ok y show ?thesis by auto
  next
    case (PageError e)
    with body show ?thesis by auto
  qed
qed

lemma list_loop_returns:
  assumes "paged_trace (page_batch w bs) (page_total w bs) start acc offs res"
    and "\<forall>e. query_page w (last offs) bs \<noteq> PageError e"
  shows "list_loop w bs start acc reqs = Some (Inr res, reqs @ offs)"
  using assms
proof (induction offs arbitrary: start acc reqs)
  case Nil
  then show ?case by (simp add: paged_trace_def)
next
  case (Cons off rest)
  show ?case
  proof (cases rest)
    case Nil
    from paged_trace_single [OF Cons.prems(1) [unfolded Nil]]
    have st: "off = start" and re: "res = acc @ page_batch w bs start"
      and la: "page_batch w bs start = [] \<or>
               page_total w bs start \<le> int (length (acc @ page_batch w bs start))"
      by simp_all
    from Cons.prems(2) Nil st have ok: "\<forall>e. query_page w start bs \<noteq> PageError e" by simp
    show ?thesis
    proof (cases "query_page w start bs")
      case (Page b t)
      then have "page_batch w bs start = b" "page_total w bs start = t"
        by (simp_all add: page_batch_def page_total_def)
      with la re Page st Nil show ?thesis
        by (subst list_loop.simps) auto
    next
      case PageUnexpected
      then have "page_batch w bs start = []" by (simp add: page_batch_def)
      with re PageUnexpected st Nil show ?thesis
        by (subst list_loop.simps) simp
    next
      case (PageError e)
      with ok show ?thesis by simp
    qed
  next
    case (Cons o1 rest')
    from paged_trace_tail [OF Cons.prems(1) [unfolded Cons]]
    have st: "off = start" and ne: "page_batch w bs start \<noteq> []"
      and lt: "int (length (acc @ page_batch w bs start)) < page_total w bs start"
      and t: "paged_trace (page_batch w bs) (page_total w bs)
                (start + length (page_batch w bs start)) (acc @ page_batch w bs start) rest res"
      by (simp_all add: Cons)
    from Cons.prems(2) Cons have ok: "\<forall>e. query_page w (last rest) bs \<noteq> PageError e" by simp
    from ne obtain b t' where pg: "query_page w start bs = Page b t'"
      by (cases "query_page w start bs") (simp_all add: page_batch_def)
    then have pb: "page_batch w bs start = b" and pt: "page_total w bs start = t'"
      by (simp_all add: page_batch_def page_total_def)
    from Cons.IH [OF t ok, of "reqs @ [start]"] pb
    have "list_loop w bs (start + length b) (acc @ b) (reqs @ [start])
            = Some (Inr res, reqs @ start # rest)" by simp
    with pg ne lt pb pt st show ?thesis
      by (subst list_loop.simps) auto
  qed
qed

lemma extract_loop_trace:
  "extract_loop w bs start tot acc reqs = (Inr res, reqs') \<Longrightarrow>
   \<exists>offs. reqs' = reqs @ offs \<and>
     paged_trace (employee_batch w bs)
       (\<lambda>off. case tot of None \<Rightarrow> employee_total w bs start | Some t \<Rightarrow> t) start acc offs res"
proof (induction w bs start tot acc reqs arbitrary: res reqs' rule: extract_loop.induct)
  case (1 w bs start tot acc reqs)
  let ?T = "(case tot of None \<Rightarrow> employee_total w bs start | Some t \<Rightarrow> t)"
  from "1.prems" obtain b rt where fb: "fetch_batch w bs start = Inr (b, rt)"
    by (subst (asm) extract_loop.simps) (auto split: sum.splits)
  then have eb: "employee_batch w bs start = b" and et: "employee_total w bs start = rt"
    by (simp_all add: employee_batch_def employee_total_def)
  have T: "?T = (case tot of None \<Rightarrow> rt | Some t \<Rightarrow> t)" using et by (cases tot) simp_all
  show ?case
  proof (cases "b = [] \<or> ?T \<le> int (length (acc @ b))")
    case True
    with "1.prems" fb T have y: "res = acc @ b" "reqs' = reqs @ [start]"
      by (subst (asm) extract_loop.simps, auto simp: Let_def split: if_splits)+
    from True eb have "employee_batch w bs start = [] \<or>
        ?T \<le> int (length (acc @ employee_batch w bs start))" by auto
    from paged_trace_stop [of "employee_batch w bs" start "\<lambda>off. ?T" acc, OF this] y eb
    show ?thesis by auto
  next
    case False
    with "1.prems" fb T have r: "extract_loop w bs (start + length b) (Some ?T) (acc @ b)
        (reqs @ [start]) = (Inr res, reqs')"
      by (subst (asm) extract_loop.simps) (auto simp: Let_def split: if_splits)
    from False T have c: "b \<noteq> []" "\<not> ?T \<le> int (length (acc @ b))" by auto
    from "1.IH" [OF fb refl T c(1) c(2) r]
    obtain offs where o: "reqs' = (reqs @ [start]) @ offs"
      and t: "paged_trace (employee_batch w bs) (\<lambda>off. ?T) (start + length b) (acc @ b) offs res"
      by auto
    from c eb have "employee_batch w bs start \<noteq> []"
      "int (length (acc @ employee_batch w bs start)) < ?T" by auto
    from paged_trace_step [of "employee_batch w bs" start acc "\<lambda>off. ?T" offs res, OF this]
      t eb o show ?thesis by auto
  qed
qed

lemma scenario_list:
  "list_all_payslips short_pages_world
     = Some (Inr [rec_n 1, rec_n 2, rec_n 3, rec_n 4], [0, 2])"
  by (simp add: list_all_payslips_def list_loop.simps query_page_def short_pages_world_def
      short_pages_def check_session_valid_def strip_def is_space_def startswith_def)

lemma scenario_extract:
  "extract_all short_pages_world 3
     = (Inr [rec_n 1, rec_n 2, rec_n 3, rec_n 4], [0, 2])"
  by (simp add: extract_all_def extract_loop.simps fetch_batch_def short_pages_world_def
      short_pages_def strip_def is_space_def startswith_def)


text \<open>
  C4. \<^verbatim>\<open>list_all_payslips\<close> returns the records \<open>res\<close> after the requests at the
  offsets \<open>offs\<close> exactly when \<open>offs\<close> and \<open>res\<close> obey the pagination contract and the
  request at the last offset does not fail: each offset is the previous one plus the
  number of records the previous page actually held, every page but the last is non-empty
  and below the reported total, and the last page is empty or reaches the total. So the
  listing does return whenever the service answers with such a sequence of pages, and it
  returns nothing else. Whenever \<^verbatim>\<open>extract_all\<close>, which always ends, returns records,
  its offsets and records obey the same contract. For the service that reports a total of
  4 and returns two pages of 2 records, both listings (the second with page size 3)
  return the 4 records after the requests at offsets 0 and 2, with no third request.
\<close>

theorem C4_pagination:
  "(list_all_payslips w = Some (Inr res, offs) \<longleftrightarrow>
      paged_trace (page_batch w 100) (page_total w 100) 0 [] offs res \<and>
      (\<forall>e. query_page w (last offs) 100 \<noteq> PageError e)) \<and>
   (extract_all w bs = (Inr res', offs') \<longrightarrow>
      paged_trace (employee_batch w bs) (\<lambda>off. employee_total w bs 0) 0 [] offs' res') \<and>
   list_all_payslips short_pages_world
     = Some (Inr [rec_n 1, rec_n 2, rec_n 3, rec_n 4], [0, 2]) \<and>
   extract_all short_pages_world 3 = (Inr [rec_n 1, rec_n 2, rec_n 3, rec_n 4], [0, 2])"
proof -
  have a: "paged_trace (page_batch w 100) (page_total w 100) 0 [] offs res \<and>
      (\<forall>e. query_page w (last offs) 100 \<noteq> PageError e)"
    if "list_all_payslips w = Some (Inr res, offs)"
    using list_loop_trace [of w 100 0 "[]" "[]" "(Inr res, offs)"] that
    by (simp add: list_all_payslips_def)
  have a': "list_all_payslips w = Some (Inr res, offs)"
    if "paged_trace (page_batch w 100) (page_total w 100) 0 [] offs res"
      "\<forall>e. query_page w (last offs) 100 \<noteq> PageError e"
    using list_loop_returns [OF that, of "[]"] by (simp add: list_all_payslips_def)
  have b: "paged_trace (employee_batch w bs) (\<lambda>off. employee_total w bs 0) 0 [] offs' res'"
    if "extract_all w bs = (Inr res', offs')"
    using extract_loop_trace [of w bs 0 None "[]" "[]" res' offs'] that
    by (simp add: extract_all_def)
  from a a' b scenario_list scenario_extract show ?thesis by blast
qed

lemma short_pages_no_error: "query_page short_pages_world 2 100 \<noteq> PageError e"
  by (simp add: query_page_def short_pages_world_def short_pages_def check_session_valid_def
      strip_def is_space_def startswith_def)

theorem C4_pagination_witness:
  "paged_trace (page_batch short_pages_world 100) (page_total short_pages_world 100) 0 []
     [0, 2] [rec_n 1, rec_n 2, rec_n 3, rec_n 4] \<and>
   paged_trace (employee_batch short_pages_world 3) (\<lambda>off. employee_total short_pages_world 3 0)
     0 [] [0, 2] [rec_n 1, rec_n 2, rec_n 3, rec_n 4]"
  using C4_pagination [of short_pages_world "[rec_n 1, rec_n 2, rec_n 3, rec_n 4]" "[0, 2]" 3
      "[rec_n 1, rec_n 2, rec_n 3, rec_n 4]" "[0, 2]"]
  by (auto simp: short_pages_no_error)


section \<open>Properties of a run\<close>

lemma ex2I: "P a b \<Longrightarrow> \<exists>a b. P a b"
  by blast

lemma fetched_ids_append: "fetched_ids (xs @ ys) = fetched_ids xs @ fetched_ids ys"
  by (induction xs rule: fetched_ids.induct) simp_all

lemma marked_ids_append: "marked_ids (xs @ ys) = marked_ids xs @ marked_ids ys"
  by (induction xs rule: marked_ids.induct) simp_all

lemma download_body_raises:
  "fst (download_body w skip i pd sid iid s) = body_raises w skip i pd sid iid"
  by (auto simp: download_body_def body_raises_def fetch_payslip_detail_def write_file_def
      pdf_step_def Let_def split: sum.splits option.splits)

lemma write_file_effect:
  assumes "write_file w p ev s = (r, s')"
  shows "index s' = index s \<and> disk_index s' = disk_index s \<and> clock s' = clock s \<and>
         files s \<subseteq> files s'"
  using assms by (cases "write_error w (path_text p)") (auto simp: write_file_def)

lemma write_file_done:
  assumes "write_file w p ev s = (None, s')"
  shows "path_text p \<in> files s' \<and> events s' = events s @ [ev]"
  using assms by (cases "write_error w (path_text p)") (auto simp: write_file_def)

lemma pdf_step_effect:
  assumes "pdf_step w skip pd sid iid s = (r, s')"
  shows "index s' = index s \<and> disk_index s' = disk_index s \<and> clock s' = clock s \<and>
         files s \<subseteq> files s' \<and>
         fetched_ids (events s') = fetched_ids (events s) \<and>
         marked_ids (events s') = marked_ids (events s)"
  using assms
  by (auto simp: pdf_step_def write_file_def Let_def fetched_ids_append marked_ids_append
      split: if_splits sum.splits option.splits)

lemma str_of_nat_nonempty: "str_of_nat n \<noteq> []"
  by (subst str_of_nat.simps) simp

lemma join_parts_nonempty: "c \<noteq> [] \<Longrightarrow> join_parts (c # cs) \<noteq> []"
  by (cases cs) simp_all

text \<open>The relative path of a file under the cache directory is not empty, and it is the
  text under which the file was written.\<close>

lemma relative_path:
  assumes "relative_to_cache (make_file_path w pd ext) = Inr p"
  shows "p \<noteq> []" and "path_text (make_file_path w pd ext) = p"
  using assms
  by (auto simp: relative_to_cache_def path_text_def make_file_path_def Let_def
      join_parts_nonempty str_of_nat_nonempty
      split: cache_path.splits option.splits if_splits prod.splits)

text \<open>The steps of the \<^verbatim>\<open>try\<close> block, one after the other.\<close>

lemma download_body_steps:
  assumes "download_body w skip i pd sid iid s = (r, s')"
  obtains
    (fetch_failed) e where "detail_result w i = Inl e" "r = Some e"
      "s' = s\<lparr>events := events s @ [Fetched i]\<rparr>"
  | (write_failed) d e where "detail_result w i = Inr d"
      "write_error w (path_text (make_file_path w pd ''json'')) = Some e" "r = Some e"
      "s' = s\<lparr>events := events s @ [Fetched i]\<rparr>"
  | (pdf_failed) d s2 e where "detail_result w i = Inr d"
      "write_file w (make_file_path w pd ''json'')
         (WroteJson (path_text (make_file_path w pd ''json'')))
         (s\<lparr>events := events s @ [Fetched i]\<rparr>) = (None, s2)"
      "pdf_step w skip pd sid iid s2 = (Inl e, s')" "r = Some e"
  | (outside) d s2 pr e where "detail_result w i = Inr d"
      "write_file w (make_file_path w pd ''json'')
         (WroteJson (path_text (make_file_path w pd ''json'')))
         (s\<lparr>events := events s @ [Fetched i]\<rparr>) = (None, s2)"
      "pdf_step w skip pd sid iid s2 = (Inr pr, s')"
      "relative_to_cache (make_file_path w pd ''json'') = Inl e" "r = Some e"
  | (marked) d s2 pr s3 jp where "detail_result w i = Inr d"
      "write_file w (make_file_path w pd ''json'')
         (WroteJson (path_text (make_file_path w pd ''json'')))
         (s\<lparr>events := events s @ [Fetched i]\<rparr>) = (None, s2)"
      "pdf_step w skip pd sid iid s2 = (Inr pr, s3)"
      "relative_to_cache (make_file_path w pd ''json'') = Inr jp" "r = None"
      "s' = mark_cached w i pd jp pr s3"
proof (cases "detail_result w i")
  case (Inl e)
  with assms fetch_failed show ?thesis
    by (simp add: download_body_def fetch_payslip_detail_def)
next
  case (Inr d)
  note d = Inr
  let ?jp = "make_file_path w pd ''json''"
  let ?s1 = "s\<lparr>events := events s @ [Fetched i]\<rparr>"
  obtain wr s2 where wf: "write_file w ?jp (WroteJson (path_text ?jp)) ?s1 = (wr, s2)"
    by (cases "write_file w ?jp (WroteJson (path_text ?jp)) ?s1")
  show ?thesis
  proof (cases wr)
    case (Some e)
    with wf have we: "write_error w (path_text ?jp) = Some e" and s2: "s2 = ?s1"
      by (cases "write_error w (path_text ?jp)"; simp add: write_file_def)+
    have "r = Some e" "s' = ?s1"
      using assms d wf Some s2 by (simp_all add: download_body_def fetch_payslip_detail_def Let_def)
    with d we show ?thesis by (rule write_failed)
  next
    case None
    obtain pr s3 where ps: "pdf_step w skip pd sid iid s2 = (pr, s3)"
      by (cases "pdf_step w skip pd sid iid s2")
    show ?thesis
    proof (cases pr)
      case (Inl e)
      with assms d wf None ps pdf_failed show ?thesis
        by (simp add: download_body_def fetch_payslip_detail_def Let_def)
    next
      case (Inr p)
      show ?thesis
      proof (cases "relative_to_cache ?jp")
        case (Inl e)
        with assms d wf None ps Inr outside show ?thesis
          by (simp add: download_body_def fetch_payslip_detail_def Let_def)
      next
        case rel: (Inr jp)
        with assms d wf None ps Inr marked show ?thesis
          by (simp add: download_body_def fetch_payslip_detail_def Let_def)
      qed
    qed
  qed
qed

lemma download_body_ok:
  assumes "download_body w skip i pd sid iid s = (None, s')"
  shows "\<exists>e jp. payslips (index s') = AList.update i e (payslips (index s)) \<and>
           json_path e = Some jp \<and> jp \<noteq> [] \<and> jp \<in> files s'"
    and "relative_to_cache (make_file_path w pd ''json'') \<noteq> Inl ValueError"
    and "files s \<subseteq> files s'"
    and "disk_index s' = disk_index s"
    and "fetched_ids (events s') = fetched_ids (events s) @ [i]"
    and "marked_ids (events s') = marked_ids (events s) @ [i]"
proof -
  from assms obtain d s2 pr s3 jp where
    wf: "write_file w (make_file_path w pd ''json'')
         (WroteJson (path_text (make_file_path w pd ''json'')))
         (s\<lparr>events := events s @ [Fetched i]\<rparr>) = (None, s2)"
    and p: "pdf_step w skip pd sid iid s2 = (Inr pr, s3)"
    and rel: "relative_to_cache (make_file_path w pd ''json'') = Inr jp"
    and s': "s' = mark_cached w i pd jp pr s3"
    by (cases rule: download_body_steps) simp_all
  note e = pdf_step_effect [OF p] and f = write_file_effect [OF wf] write_file_done [OF wf]
    and r = relative_path [OF rel]
  from f r have in2: "jp \<in> files s2" by simp
  with e have in3: "jp \<in> files s3" by blast
  have "payslips (index s')
      = AList.update i \<lparr>pay_date = pd, json_path = Some jp, pdf_path = pr,
               cached_at = now_iso w (clock s3)\<rparr> (payslips (index s))"
    using e f s' by (simp add: mark_cached_def)
  moreover have "jp \<in> files s'" using in3 s' by (simp add: mark_cached_def)
  ultimately show "\<exists>e jp. payslips (index s') = AList.update i e (payslips (index s)) \<and>
           json_path e = Some jp \<and> jp \<noteq> [] \<and> jp \<in> files s'"
    using r(1) by (intro ex2I [of _ "\<lparr>pay_date = pd, json_path = Some jp, pdf_path = pr,
               cached_at = now_iso w (clock s3)\<rparr>" jp]) simp
  show "relative_to_cache (make_file_path w pd ''json'') \<noteq> Inl ValueError" using rel by simp
  show "files s \<subseteq> files s'" using e f s' by (auto simp: mark_cached_def)
  show "disk_index s' = disk_index s" using e f s' by (simp add: mark_cached_def)
  show "fetched_ids (events s') = fetched_ids (events s) @ [i]"
    using e f s' by (simp add: mark_cached_def fetched_ids_append)
  show "marked_ids (events s') = marked_ids (events s) @ [i]"
    using e f s' by (simp add: mark_cached_def marked_ids_append)
qed

lemma download_body_fail:
  assumes "download_body w skip i pd sid iid s = (Some e, s')"
  shows "index s' = index s" and "files s \<subseteq> files s'" and "disk_index s' = disk_index s"
    and "fetched_ids (events s') = fetched_ids (events s) @ [i]"
    and "marked_ids (events s') = marked_ids (events s)"
proof -
  let ?s1 = "s\<lparr>events := events s @ [Fetched i]\<rparr>"
  from assms have c: "s' = ?s1 \<or>
     (\<exists>s2 r. write_file w (make_file_path w pd ''json'')
         (WroteJson (path_text (make_file_path w pd ''json''))) ?s1 = (None, s2) \<and>
       pdf_step w skip pd sid iid s2 = (r, s'))"
    by (cases rule: download_body_steps) auto
  then have "index s' = index s \<and> files s \<subseteq> files s' \<and> disk_index s' = disk_index s \<and>
    fetched_ids (events s') = fetched_ids (events s) @ [i] \<and>
    marked_ids (events s') = marked_ids (events s)"
  proof
    assume "s' = ?s1"
    then show ?thesis by (simp add: fetched_ids_append marked_ids_append)
  next
    assume "\<exists>s2 r. write_file w (make_file_path w pd ''json'')
         (WroteJson (path_text (make_file_path w pd ''json''))) ?s1 = (None, s2) \<and>
       pdf_step w skip pd sid iid s2 = (r, s')"
    then obtain s2 r where wf: "write_file w (make_file_path w pd ''json'')
         (WroteJson (path_text (make_file_path w pd ''json''))) ?s1 = (None, s2)"
      and p: "pdf_step w skip pd sid iid s2 = (r, s')" by blast
    from write_file_effect [OF wf] write_file_done [OF wf] pdf_step_effect [OF p]
    show ?thesis
      by (auto simp: fetched_ids_append marked_ids_append)
  qed
  then show "index s' = index s" and "files s \<subseteq> files s'" and "disk_index s' = disk_index s"
    and "fetched_ids (events s') = fetched_ids (events s) @ [i]"
    and "marked_ids (events s') = marked_ids (events s)" by simp_all
qed


lemma is_missing_events [simp]: "is_missing w (s\<lparr>events := es\<rparr>) = is_missing w s"
  by (rule ext) (simp add: is_missing_def split: sum.splits)

lemma find_missing_effect:
  "find_missing w listed acc s = (r, s') \<Longrightarrow>
     index s' = index s \<and> disk_index s' = disk_index s \<and> files s' = files s \<and>
     clock s' = clock s \<and>
     fetched_ids (events s') = fetched_ids (events s) \<and>
     marked_ids (events s') = marked_ids (events s) \<and>
     (\<forall>m. r = Inr m \<longrightarrow> m = acc @ filter (is_missing w s) listed)"
proof (induction listed arbitrary: acc s)
  case Nil
  then show ?case by auto
next
  case (Cons ps rest)
  show ?case
  proof (cases "get_encoded_id (py_str w) ps")
    case (Inl e)
    show ?thesis
    proof (cases "e = ValueError")
      case True
      with Inl Cons.prems
      have "find_missing w rest acc (s\<lparr>events := events s @ [Warned ps]\<rparr>) = (r, s')" by simp
      from Cons.IH [OF this] Inl show ?thesis
        by (simp add: fetched_ids_append marked_ids_append is_missing_def)
    next
      case False
      with Inl Cons.prems have "r = Inl e" "s' = s" by (cases e; simp)+
      then show ?thesis by simp
    qed
  next
    case (Inr i)
    show ?thesis
    proof (cases "is_cached (index s) (files s) i True")
      case True
      with Inr Cons.prems have "find_missing w rest acc s = (r, s')" by simp
      from Cons.IH [OF this] Inr True show ?thesis by (simp add: is_missing_def)
    next
      case False
      with Inr Cons.prems have "find_missing w rest (acc @ [ps]) s = (r, s')" by simp
      from Cons.IH [OF this] Inr False show ?thesis by (simp add: is_missing_def)
    qed
  qed
qed

lemma download_loop_cases:
  assumes "download_loop w skip (ps # rest) n s = (r, s')"
  obtains
    (no_id) e where "get_encoded_id (py_str w) ps = Inl e" "r = Inl e" "s' = s"
  | (no_pdf_info) i e where "get_encoded_id (py_str w) ps = Inr i"
      "get_pdf_info ps = Inl e" "r = Inl e" "s' = s"
  | (downloaded) i sid iid s1 where "get_encoded_id (py_str w) ps = Inr i"
      "get_pdf_info ps = Inr (sid, iid)"
      "download_body w skip i (get_pay_date ps) sid iid s = (None, s1)"
      "download_loop w skip rest (Suc n) s1 = (r, s')"
  | (expired) i sid iid s1 msg where "get_encoded_id (py_str w) ps = Inr i"
      "get_pdf_info ps = Inr (sid, iid)"
      "download_body w skip i (get_pay_date ps) sid iid s = (Some (RuntimeError msg), s1)"
      "is_expiry msg" "r = Inl (RuntimeError msg)" "s' = save w s1"
  | (failed) i sid iid s1 msg where "get_encoded_id (py_str w) ps = Inr i"
      "get_pdf_info ps = Inr (sid, iid)"
      "download_body w skip i (get_pay_date ps) sid iid s = (Some (RuntimeError msg), s1)"
      "\<not> is_expiry msg" "download_loop w skip rest n s1 = (r, s')"
  | (escaped) i sid iid s1 e where "get_encoded_id (py_str w) ps = Inr i"
      "get_pdf_info ps = Inr (sid, iid)"
      "download_body w skip i (get_pay_date ps) sid iid s = (Some e, s1)"
      "\<forall>msg. e \<noteq> RuntimeError msg" "r = Inl e" "s' = s1"
proof (cases "get_encoded_id (py_str w) ps")
  case (Inl e)
  with assms no_id show ?thesis by simp
next
  case (Inr i)
  note i = Inr
  show ?thesis
  proof (cases "get_pdf_info ps")
    case (Inl e)
    with assms i no_pdf_info show ?thesis by simp
  next
    case (Inr pi)
    obtain sid iid where pi: "pi = (sid, iid)" by (cases pi)
    obtain b s1 where b: "download_body w skip i (get_pay_date ps) sid iid s = (b, s1)"
      by (cases "download_body w skip i (get_pay_date ps) sid iid s")
    show ?thesis
    proof (cases b)
      case None
      with assms i Inr pi b downloaded show ?thesis by simp
    next
      case (Some e)
      show ?thesis
      proof (cases "\<exists>msg. e = RuntimeError msg")
        case True
        then obtain msg where m: "e = RuntimeError msg" by blast
        show ?thesis
        proof (cases "is_expiry msg")
          case True
          with assms i Inr pi b Some m expired show ?thesis by simp
        next
          case False
          with assms i Inr pi b Some m failed show ?thesis by simp
        qed
      next
        case False
        with assms i Inr pi b Some have "r = Inl e" "s' = s1" by (cases e; simp)+
        with False i Inr pi b Some escaped show ?thesis by blast
      qed
    qed
  qed
qed

text \<open>A relation between states that every step of the loop respects holds between the
  first and the last state.\<close>

lemma download_loop_rel:
  assumes run: "download_loop w skip ms n s = (r, s')"
    and refl: "\<And>s. R s s"
    and trans: "\<And>a b c. R a b \<Longrightarrow> R b c \<Longrightarrow> R a c"
    and body: "\<And>ps i sid iid s b s1. ps \<in> set ms \<Longrightarrow>
        get_encoded_id (py_str w) ps = Inr i \<Longrightarrow> get_pdf_info ps = Inr (sid, iid) \<Longrightarrow>
        download_body w skip i (get_pay_date ps) sid iid s = (b, s1) \<Longrightarrow> R s s1"
    and sv: "\<And>s. R s (save w s)"
  shows "R s s'"
  using run body
proof (induction ms arbitrary: n s)
  case Nil
  then show ?case using refl by simp
next
  case (Cons ps rest)
  have step: "\<And>i sid iid s b s1.
        get_encoded_id (py_str w) ps = Inr i \<Longrightarrow> get_pdf_info ps = Inr (sid, iid) \<Longrightarrow>
        download_body w skip i (get_pay_date ps) sid iid s = (b, s1) \<Longrightarrow> R s s1"
    by (rule Cons.prems(2) [of ps]) simp_all
  have rest: "R s1 s'" if "download_loop w skip rest n s1 = (r, s')" for n s1
  proof (rule Cons.IH [OF that])
    fix ps' i sid iid s b s1
    assume "ps' \<in> set rest" "get_encoded_id (py_str w) ps' = Inr i"
      "get_pdf_info ps' = Inr (sid, iid)"
      "download_body w skip i (get_pay_date ps') sid iid s = (b, s1)"
    then show "R s s1" using Cons.prems(2) [of ps' i sid iid s b s1] by simp
  qed
  from Cons.prems(1) show ?case
  proof (cases rule: download_loop_cases)
    case (no_id e)
    then show ?thesis using refl by simp
  next
    case (no_pdf_info i e)
    then show ?thesis using refl by simp
  next
    case (downloaded i sid iid s1)
    from step [OF downloaded(1,2,3)] rest [OF downloaded(4)] show ?thesis by (rule trans)
  next
    case (expired i sid iid s1 msg)
    from step [OF expired(1,2,3)] sv [of s1] expired(6) show ?thesis
      using trans by simp
  next
    case (failed i sid iid s1 msg)
    from step [OF failed(1,2,3)] rest [OF failed(5)] show ?thesis by (rule trans)
  next
    case (escaped i sid iid s1 e)
    from step [OF escaped(1,2,3)] escaped(6) show ?thesis by simp
  qed
qed


lemma is_cached_cong:
  "payslips d = payslips d' \<Longrightarrow> is_cached d fs i v = is_cached d' fs i v"
  by (simp add: is_cached_def)

lemma is_cached_mono:
  "is_cached d fs i True \<Longrightarrow> fs \<subseteq> fs' \<Longrightarrow> is_cached d fs' i True"
  by (auto simp: is_cached_def split: option.splits if_splits)


lemma download_body_cached:
  assumes b: "download_body w skip i pd sid iid s = (r, s1)"
    and c: "is_cached (index s) (files s) j True"
  shows "is_cached (index s1) (files s1) j True"
proof (cases r)
  case None
  with b have b': "download_body w skip i pd sid iid s = (None, s1)" by simp
  from download_body_ok(1) [OF b'] obtain e jp
    where e: "payslips (index s1) = AList.update i e (payslips (index s))"
      "json_path e = Some jp" "jp \<in> files s1" by blast
  note m = download_body_ok(3) [OF b']
  show ?thesis
  proof (cases "j = i")
    case True
    with e show ?thesis by (simp add: is_cached_def update_conv')
  next
    case False
    with e c m show ?thesis
      by (auto simp: is_cached_def update_conv' split: option.splits if_splits)
  qed
next
  case (Some e)
  with b have b': "download_body w skip i pd sid iid s = (Some e, s1)" by simp
  from download_body_fail(1,2) [OF b'] c show ?thesis
    by (auto intro: is_cached_mono)
qed

lemma download_body_just_cached:
  assumes b: "download_body w skip i pd sid iid s = (None, s1)"
  shows "is_cached (index s1) (files s1) i True"
proof -
  from download_body_ok(1) [OF b] obtain e jp
    where e: "payslips (index s1) = AList.update i e (payslips (index s))"
      "json_path e = Some jp" "jp \<in> files s1" by blast
  then show ?thesis by (simp add: is_cached_def update_conv')
qed

lemma save_effect:
  "payslips (index (save w s)) = payslips (index s)"
  "files (save w s) = files s"
  "fetched_ids (events (save w s)) = fetched_ids (events s)"
  "marked_ids (events (save w s)) = marked_ids (events s)"
  "disk_index (save w s) =
     Stored (Some (payslips (index s))) (Some (length (payslips (index s))))
       (Some (now_iso w (clock s)))"
  by (simp_all add: save_def Let_def fetched_ids_append marked_ids_append)

lemma stored_after_save:
  "stored_payslips (save w s) = payslips (index s)"
  "stored_total_count (save w s) = length (payslips (index s))"
  by (simp_all add: stored_payslips_def stored_total_count_def save_def Let_def index_load_def)

lemma download_loop_files:
  assumes "download_loop w skip ms n s = (r, s')"
  shows "files s \<subseteq> files s'"
proof (rule download_loop_rel [OF assms, where R = "\<lambda>a b. files a \<subseteq> files b"])
  fix ps i sid iid s b s1
  assume "download_body w skip i (get_pay_date ps) sid iid s = (b, s1)"
  then show "files s \<subseteq> files s1"
    by (cases b) (auto dest: download_body_ok(3) download_body_fail(2))
qed (auto simp: save_effect)

lemma download_loop_cached:
  assumes "download_loop w skip ms n s = (r, s')"
  shows "is_cached (index s) (files s) j True \<longrightarrow> is_cached (index s') (files s') j True"
proof (rule download_loop_rel [OF assms, where
      R = "\<lambda>a b. is_cached (index a) (files a) j True \<longrightarrow> is_cached (index b) (files b) j True"])
  fix ps i sid iid s b s1
  assume "download_body w skip i (get_pay_date ps) sid iid s = (b, s1)"
  then show "is_cached (index s) (files s) j True \<longrightarrow> is_cached (index s1) (files s1) j True"
    by (auto dest: download_body_cached)
next
  fix s
  show "is_cached (index s) (files s) j True \<longrightarrow>
        is_cached (index (save w s)) (files (save w s)) j True"
    by (simp add: save_effect is_cached_def)
qed auto


lemma download_loop_trace:
  assumes "download_loop w skip ms n s = (r, s')"
  shows "\<exists>F M. fetched_ids (events s') = fetched_ids (events s) @ F \<and>
           marked_ids (events s') = marked_ids (events s) @ M \<and>
           set M \<subseteq> set F \<and>
           set F \<subseteq> {i. \<exists>ps\<in>set ms. get_encoded_id (py_str w) ps = Inr i} \<and>
           (\<forall>i. map_of (payslips (index s')) i \<noteq> map_of (payslips (index s)) i \<longrightarrow> i \<in> set M)"
proof (rule download_loop_rel [OF assms, where
      R = "\<lambda>a b. \<exists>F M. fetched_ids (events b) = fetched_ids (events a) @ F \<and>
           marked_ids (events b) = marked_ids (events a) @ M \<and>
           set M \<subseteq> set F \<and>
           set F \<subseteq> {i. \<exists>ps\<in>set ms. get_encoded_id (py_str w) ps = Inr i} \<and>
           (\<forall>i. map_of (payslips (index b)) i \<noteq> map_of (payslips (index a)) i \<longrightarrow> i \<in> set M)"])
  fix s :: state
  show "\<exists>F M. fetched_ids (events s) = fetched_ids (events s) @ F \<and>
           marked_ids (events s) = marked_ids (events s) @ M \<and>
           set M \<subseteq> set F \<and>
           set F \<subseteq> {i. \<exists>ps\<in>set ms. get_encoded_id (py_str w) ps = Inr i} \<and>
           (\<forall>i. map_of (payslips (index s)) i \<noteq> map_of (payslips (index s)) i \<longrightarrow> i \<in> set M)"
    by (intro ex2I [of _ "[]" "[]"]) simp
next
  fix a b c :: state
  let ?I = "{i. \<exists>ps\<in>set ms. get_encoded_id (py_str w) ps = Inr i}"
  assume "\<exists>F M. fetched_ids (events b) = fetched_ids (events a) @ F \<and>
           marked_ids (events b) = marked_ids (events a) @ M \<and>
           set M \<subseteq> set F \<and> set F \<subseteq> ?I \<and>
           (\<forall>i. map_of (payslips (index b)) i \<noteq> map_of (payslips (index a)) i \<longrightarrow> i \<in> set M)"
  then obtain F1 M1 where 1: "fetched_ids (events b) = fetched_ids (events a) @ F1"
    "marked_ids (events b) = marked_ids (events a) @ M1" "set M1 \<subseteq> set F1" "set F1 \<subseteq> ?I"
    "\<forall>i. map_of (payslips (index b)) i \<noteq> map_of (payslips (index a)) i \<longrightarrow> i \<in> set M1"
    by blast
  assume "\<exists>F M. fetched_ids (events c) = fetched_ids (events b) @ F \<and>
           marked_ids (events c) = marked_ids (events b) @ M \<and>
           set M \<subseteq> set F \<and> set F \<subseteq> ?I \<and>
           (\<forall>i. map_of (payslips (index c)) i \<noteq> map_of (payslips (index b)) i \<longrightarrow> i \<in> set M)"
  then obtain F2 M2 where 2: "fetched_ids (events c) = fetched_ids (events b) @ F2"
    "marked_ids (events c) = marked_ids (events b) @ M2" "set M2 \<subseteq> set F2" "set F2 \<subseteq> ?I"
    "\<forall>i. map_of (payslips (index c)) i \<noteq> map_of (payslips (index b)) i \<longrightarrow> i \<in> set M2"
    by blast
  have "\<forall>i. map_of (payslips (index c)) i \<noteq> map_of (payslips (index a)) i \<longrightarrow>
          i \<in> set (M1 @ M2)"
    using 1(5) 2(5) by (metis Un_iff set_append)
  with 1 2 show "\<exists>F M. fetched_ids (events c) = fetched_ids (events a) @ F \<and>
           marked_ids (events c) = marked_ids (events a) @ M \<and>
           set M \<subseteq> set F \<and> set F \<subseteq> ?I \<and>
           (\<forall>i. map_of (payslips (index c)) i \<noteq> map_of (payslips (index a)) i \<longrightarrow> i \<in> set M)"
    by (intro ex2I [of _ "F1 @ F2" "M1 @ M2"]) auto
next
  fix ps i sid iid s b s1
  let ?I = "{i. \<exists>ps\<in>set ms. get_encoded_id (py_str w) ps = Inr i}"
  assume ps: "ps \<in> set ms" and i: "get_encoded_id (py_str w) ps = Inr i"
    and b: "download_body w skip i (get_pay_date ps) sid iid s = (b, s1)"
  from ps i have I: "i \<in> ?I" by blast
  show "\<exists>F M. fetched_ids (events s1) = fetched_ids (events s) @ F \<and>
           marked_ids (events s1) = marked_ids (events s) @ M \<and>
           set M \<subseteq> set F \<and> set F \<subseteq> ?I \<and>
           (\<forall>i. map_of (payslips (index s1)) i \<noteq> map_of (payslips (index s)) i \<longrightarrow> i \<in> set M)"
  proof (cases b)
    case None
    with b have b': "download_body w skip i (get_pay_date ps) sid iid s = (None, s1)" by simp
    from download_body_ok(1) [OF b'] obtain e
      where e: "payslips (index s1) = AList.update i e (payslips (index s))" by blast
    then have "\<forall>j. map_of (payslips (index s1)) j \<noteq> map_of (payslips (index s)) j \<longrightarrow> j \<in> set [i]"
      by (simp add: update_conv')
    with download_body_ok(5,6) [OF b'] I show ?thesis
      by (intro ex2I [of _ "[i]" "[i]"]) simp
  next
    case (Some e)
    with b have b': "download_body w skip i (get_pay_date ps) sid iid s = (Some e, s1)" by simp
    from download_body_fail(1,4,5) [OF b'] I show ?thesis
      by (intro ex2I [of _ "[i]" "[]"]) simp
  qed
next
  fix s
  show "\<exists>F M. fetched_ids (events (save w s)) = fetched_ids (events s) @ F \<and>
           marked_ids (events (save w s)) = marked_ids (events s) @ M \<and>
           set M \<subseteq> set F \<and>
           set F \<subseteq> {i. \<exists>ps\<in>set ms. get_encoded_id (py_str w) ps = Inr i} \<and>
           (\<forall>i. map_of (payslips (index (save w s))) i \<noteq> map_of (payslips (index s)) i
                \<longrightarrow> i \<in> set M)"
    by (intro ex2I [of _ "[]" "[]"]) (simp add: save_effect)
qed

lemma download_loop_disk:
  "download_loop w skip ms n s = (r, s') \<Longrightarrow>
     disk_index s' = disk_index s \<or> stored_payslips s' = payslips (index s')"
proof (induction ms arbitrary: n s)
  case Nil
  then show ?case by simp
next
  case (Cons ps rest)
  from Cons.prems show ?case
  proof (cases rule: download_loop_cases)
    case (downloaded i sid iid s1)
    from Cons.IH [OF downloaded(4)] download_body_ok(4) [OF downloaded(3)] show ?thesis by auto
  next
    case (expired i sid iid s1 msg)
    then show ?thesis by (simp add: stored_after_save save_effect)
  next
    case (failed i sid iid s1 msg)
    from Cons.IH [OF failed(5)] download_body_fail(3) [OF failed(3)] show ?thesis by auto
  next
    case (escaped i sid iid s1 e)
    with download_body_fail(3) [OF escaped(3)] show ?thesis by simp
  qed simp_all
qed

lemma download_loop_returned:
  "download_loop w skip ms n s = (Inr n', s') \<Longrightarrow>
     disk_index s' = disk_index s \<and>
     (\<exists>F. map (get_encoded_id (py_str w)) ms = map Inr F \<and>
          fetched_ids (events s') = fetched_ids (events s) @ F) \<and>
     (\<forall>ps\<in>set ms. \<exists>i sid iid. get_encoded_id (py_str w) ps = Inr i \<and>
          get_pdf_info ps = Inr (sid, iid) \<and>
          (is_cached (index s') (files s') i True \<or>
           (\<exists>msg. body_raises w skip i (get_pay_date ps) sid iid = Some (RuntimeError msg) \<and> \<not> is_expiry msg)))"
proof (induction ms arbitrary: n s)
  case Nil
  then show ?case by simp
next
  case (Cons ps rest)
  from Cons.prems show ?case
  proof (cases rule: download_loop_cases)
    case (downloaded i sid iid s1)
    note IH = Cons.IH [OF downloaded(4)]
    from IH obtain F where F: "map (get_encoded_id (py_str w)) rest = map Inr F"
      "fetched_ids (events s') = fetched_ids (events s1) @ F" by blast
    have c: "is_cached (index s') (files s') i True"
      using download_body_just_cached [OF downloaded(3)] download_loop_cached [OF downloaded(4)]
      by blast
    have "map (get_encoded_id (py_str w)) (ps # rest) = map Inr (i # F) \<and>
          fetched_ids (events s') = fetched_ids (events s) @ (i # F)"
      using F downloaded(1) download_body_ok(5) [OF downloaded(3)] by simp
    then have "\<exists>F. map (get_encoded_id (py_str w)) (ps # rest) = map Inr F \<and>
          fetched_ids (events s') = fetched_ids (events s) @ F" by blast
    with IH c downloaded(1,2) download_body_ok(4) [OF downloaded(3)] show ?thesis by auto
  next
    case (failed i sid iid s1 msg)
    note IH = Cons.IH [OF failed(5)]
    from IH obtain F where F: "map (get_encoded_id (py_str w)) rest = map Inr F"
      "fetched_ids (events s') = fetched_ids (events s1) @ F" by blast
    have c: "body_raises w skip i (get_pay_date ps) sid iid = Some (RuntimeError msg)"
      using download_body_raises [of w skip i "get_pay_date ps" sid iid s] failed(3) by simp
    have "map (get_encoded_id (py_str w)) (ps # rest) = map Inr (i # F) \<and>
          fetched_ids (events s') = fetched_ids (events s) @ (i # F)"
      using F failed(1) download_body_fail(4) [OF failed(3)] by simp
    then have "\<exists>F. map (get_encoded_id (py_str w)) (ps # rest) = map Inr F \<and>
          fetched_ids (events s') = fetched_ids (events s) @ F" by blast
    with IH c failed(1,2,4) download_body_fail(3) [OF failed(3)] show ?thesis by auto
  qed simp_all
qed


lemma download_loop_prefix_ok:
  "\<forall>ps\<in>set pre. record_downloads w skip ps \<Longrightarrow>
   \<exists>s1 F. download_loop w skip (pre @ rest) n s = download_loop w skip rest (n + length pre) s1 \<and>
      disk_index s1 = disk_index s \<and> files s \<subseteq> files s1 \<and>
      map (get_encoded_id (py_str w)) pre = map Inr F \<and>
      fetched_ids (events s1) = fetched_ids (events s) @ F \<and>
      marked_ids (events s1) = marked_ids (events s) @ F \<and>
      fst ` set (payslips (index s1)) = fst ` set (payslips (index s)) \<union> set F \<and>
      (distinct (map fst (payslips (index s))) \<longrightarrow> distinct (map fst (payslips (index s1)))) \<and>
      (\<forall>j. is_cached (index s) (files s) j True \<longrightarrow> is_cached (index s1) (files s1) j True) \<and>
      (\<forall>i\<in>set F. is_cached (index s1) (files s1) i True)"
proof (induction pre arbitrary: n s)
  case Nil
  show ?case by (intro ex2I [of _ s "[]"]) simp
next
  case (Cons ps pre)
  from Cons.prems have ok: "record_downloads w skip ps"
    and oks: "\<forall>ps\<in>set pre. record_downloads w skip ps" by simp_all
  from ok obtain i sid iid where i: "get_encoded_id (py_str w) ps = Inr i"
    and p: "get_pdf_info ps = Inr (sid, iid)"
    and r: "body_raises w skip i (get_pay_date ps) sid iid = None"
    by (auto simp: record_downloads_def split: sum.splits prod.splits)
  obtain b s0 where b0: "download_body w skip i (get_pay_date ps) sid iid s = (b, s0)"
    by (cases "download_body w skip i (get_pay_date ps) sid iid s")
  with r download_body_raises [of w skip i "get_pay_date ps" sid iid s]
  have b: "download_body w skip i (get_pay_date ps) sid iid s = (None, s0)" by simp
  have step: "download_loop w skip ((ps # pre) @ rest) n s
      = download_loop w skip (pre @ rest) (Suc n) s0"
    using i p b by simp
  from Cons.IH [OF oks, of "Suc n" s0] obtain s1 F where
    IH: "download_loop w skip (pre @ rest) (Suc n) s0
           = download_loop w skip rest (Suc n + length pre) s1"
      "disk_index s1 = disk_index s0" "files s0 \<subseteq> files s1"
      "map (get_encoded_id (py_str w)) pre = map Inr F"
      "fetched_ids (events s1) = fetched_ids (events s0) @ F"
      "marked_ids (events s1) = marked_ids (events s0) @ F"
      "fst ` set (payslips (index s1)) = fst ` set (payslips (index s0)) \<union> set F"
      "distinct (map fst (payslips (index s0))) \<longrightarrow> distinct (map fst (payslips (index s1)))"
      "\<forall>j. is_cached (index s0) (files s0) j True \<longrightarrow> is_cached (index s1) (files s1) j True"
      "\<forall>i\<in>set F. is_cached (index s1) (files s1) i True"
    by blast
  from download_body_ok(1) [OF b] obtain e
    where e: "payslips (index s0) = AList.update i e (payslips (index s))" by blast
  note o = download_body_ok [OF b]
  have 1: "download_loop w skip ((ps # pre) @ rest) n s
      = download_loop w skip rest (n + length (ps # pre)) s1"
    using step IH(1) by simp
  have 2: "disk_index s1 = disk_index s" using IH(2) o(4) by simp
  have 3: "files s \<subseteq> files s1" using IH(3) o(3) by blast
  have 4: "map (get_encoded_id (py_str w)) (ps # pre) = map Inr (i # F)" using i IH(4) by simp
  have 5: "fetched_ids (events s1) = fetched_ids (events s) @ (i # F)" using IH(5) o(5) by simp
  have 6: "marked_ids (events s1) = marked_ids (events s) @ (i # F)" using IH(6) o(6) by simp
  have 7: "fst ` set (payslips (index s1)) = fst ` set (payslips (index s)) \<union> set (i # F)"
    using IH(7) e by (simp add: dom_update)
  have 8: "distinct (map fst (payslips (index s))) \<longrightarrow> distinct (map fst (payslips (index s1)))"
    using IH(8) e by (simp add: distinct_update)
  have 9: "\<forall>j. is_cached (index s) (files s) j True \<longrightarrow> is_cached (index s1) (files s1) j True"
    using IH(9) download_body_cached [OF b] by blast
  have 10: "\<forall>i\<in>set (i # F). is_cached (index s1) (files s1) i True"
    using IH(9,10) download_body_just_cached [OF b] by simp
  from 1 2 3 4 5 6 7 8 9 10 show ?case by blast
qed

lemma download_loop_all_fail:
  "\<forall>ps\<in>set ms. \<exists>i sid iid msg. get_encoded_id (py_str w) ps = Inr i \<and>
        get_pdf_info ps = Inr (sid, iid) \<and>
        body_raises w skip i (get_pay_date ps) sid iid = Some (RuntimeError msg) \<and> \<not> is_expiry msg \<Longrightarrow>
   \<exists>s'. download_loop w skip ms n s = (Inr n, s') \<and> index s' = index s \<and>
        disk_index s' = disk_index s"
proof (induction ms arbitrary: s)
  case Nil
  show ?case by simp
next
  case (Cons ps ms)
  from Cons.prems obtain i sid iid msg where i: "get_encoded_id (py_str w) ps = Inr i"
    and p: "get_pdf_info ps = Inr (sid, iid)"
    and r: "body_raises w skip i (get_pay_date ps) sid iid = Some (RuntimeError msg)" and m: "\<not> is_expiry msg"
    by auto
  obtain b s0 where b0: "download_body w skip i (get_pay_date ps) sid iid s = (b, s0)"
    by (cases "download_body w skip i (get_pay_date ps) sid iid s")
  with r download_body_raises [of w skip i "get_pay_date ps" sid iid s]
  have b: "download_body w skip i (get_pay_date ps) sid iid s = (Some (RuntimeError msg), s0)"
    by simp
  have step: "download_loop w skip (ps # ms) n s = download_loop w skip ms n s0"
    using i p b m by simp
  from Cons.prems have "\<forall>ps\<in>set ms. \<exists>i sid iid msg. get_encoded_id (py_str w) ps = Inr i \<and>
        get_pdf_info ps = Inr (sid, iid) \<and>
        body_raises w skip i (get_pay_date ps) sid iid = Some (RuntimeError msg) \<and> \<not> is_expiry msg" by simp
  from Cons.IH [OF this, of s0] obtain s' where
    "download_loop w skip ms n s0 = (Inr n, s')" "index s' = index s0"
    "disk_index s' = disk_index s0" by blast
  with step download_body_fail(1,3) [OF b] show ?case by simp
qed


lemma load_effect:
  "payslips (index (load s)) = stored_payslips s" "files (load s) = files s"
  "disk_index (load s) = disk_index s" "events (load s) = events s"
  "stored_payslips (load s) = stored_payslips s"
  by (simp_all add: load_def stored_payslips_def)

lemma satisfied_load: "is_cached (index (load s)) (files (load s)) i True = satisfied s i"
  by (simp add: load_def satisfied_def)

lemma find_missing_total:
  "\<forall>ps\<in>set listed. \<forall>e. get_encoded_id (py_str w) ps = Inl e \<longrightarrow> e = ValueError \<Longrightarrow>
   \<exists>m s'. find_missing w listed acc s = (Inr m, s')"
proof (induction listed arbitrary: acc s)
  case Nil
  show ?case by simp
next
  case (Cons ps rest)
  then have IH: "\<And>acc s. \<exists>m s'. find_missing w rest acc s = (Inr m, s')" by simp
  show ?case
  proof (cases "get_encoded_id (py_str w) ps")
    case (Inl e)
    with Cons.prems have "e = ValueError" by simp
    with Inl IH show ?thesis by simp
  next
    case (Inr i)
    with IH show ?thesis by simp
  qed
qed

lemma sync_listed_core:
  assumes run: "sync_listed w skip listed s0 = (out, s')"
  shows "\<exists>F M. fetched_ids (events s') = fetched_ids (events s0) @ F \<and>
           marked_ids (events s') = marked_ids (events s0) @ M \<and>
           set M \<subseteq> set F \<and>
           (\<forall>i\<in>set F. \<not> is_cached (index s0) (files s0) i True) \<and>
           (\<forall>i. map_of (payslips (index s')) i \<noteq> map_of (payslips (index s0)) i \<longrightarrow> i \<in> set M) \<and>
           (disk_index s' = disk_index s0 \<or> stored_payslips s' = payslips (index s')) \<and>
           files s0 \<subseteq> files s' \<and>
           (\<forall>t c n. out = Returned t c n \<longrightarrow>
              (\<forall>ps\<in>set listed. \<forall>i. get_encoded_id (py_str w) ps = Inr i \<and>
                  \<not> is_cached (index s0) (files s0) i True \<longrightarrow> i \<in> set F))"
proof (cases "listed = []")
  case True
  with run have "s' = s0" by (simp add: sync_listed_def)
  then show ?thesis by (intro ex2I [of _ "[]" "[]"]) (simp add: True)
next
  case False
  obtain r s1 where fm: "find_missing w listed [] s0 = (r, s1)"
    by (cases "find_missing w listed [] s0")
  note fe = find_missing_effect [OF fm]
  show ?thesis
  proof (cases r)
    case (Inl e)
    with run False fm have "s' = s1" "out = Raised e" by (simp_all add: sync_listed_def)
    with fe show ?thesis by (intro ex2I [of _ "[]" "[]"]) simp
  next
    case (Inr missing)
    with fe have mi: "missing = filter (is_missing w s0) listed" by simp
    show ?thesis
    proof (cases "missing = []")
      case True
      with run False fm Inr have s': "s' = save w s1" by (simp add: sync_listed_def Let_def)
      have "\<forall>ps\<in>set listed. \<forall>i. get_encoded_id (py_str w) ps = Inr i \<and>
                  \<not> is_cached (index s0) (files s0) i True \<longrightarrow> False"
        using True mi by (auto simp: filter_empty_conv is_missing_def)
      with s' fe show ?thesis
        by (intro ex2I [of _ "[]" "[]"]) (auto simp: save_effect stored_after_save)
    next
      case ne: False
      obtain r2 s2 where dl: "download_loop w skip missing 0 s1 = (r2, s2)"
        by (cases "download_loop w skip missing 0 s1")
      from download_loop_trace [OF dl] obtain F M where
        t: "fetched_ids (events s2) = fetched_ids (events s1) @ F"
          "marked_ids (events s2) = marked_ids (events s1) @ M"
          "set M \<subseteq> set F"
          "set F \<subseteq> {i. \<exists>ps\<in>set missing. get_encoded_id (py_str w) ps = Inr i}"
          "\<forall>i. map_of (payslips (index s2)) i \<noteq> map_of (payslips (index s1)) i \<longrightarrow> i \<in> set M"
        by blast
      have nc: "\<forall>i\<in>set F. \<not> is_cached (index s0) (files s0) i True"
        using t(4) mi by (auto simp: is_missing_def)
      note d = download_loop_disk [OF dl] and f = download_loop_files [OF dl]
      show ?thesis
      proof (cases r2)
        case (Inl e)
        with run False fm Inr ne dl have s': "s' = s2" "out = Raised e"
          by (simp_all add: sync_listed_def Let_def)
        with t nc d f fe show ?thesis
          by (intro ex2I [of _ F M]) simp
      next
        case r2: (Inr k)
        with run False fm Inr ne dl have s': "s' = save w s2"
          by (simp_all add: sync_listed_def Let_def)
        from download_loop_returned [OF dl [unfolded r2]] obtain F' where
          F': "map (get_encoded_id (py_str w)) missing = map Inr F'"
            "fetched_ids (events s2) = fetched_ids (events s1) @ F'" by blast
        with t(1) have FF: "F' = F" by simp
        have all: "\<forall>ps\<in>set listed. \<forall>i. get_encoded_id (py_str w) ps = Inr i \<and>
                  \<not> is_cached (index s0) (files s0) i True \<longrightarrow> i \<in> set F"
        proof (intro ballI allI impI)
          fix ps i assume ps: "ps \<in> set listed"
            and i: "get_encoded_id (py_str w) ps = Inr i \<and>
                  \<not> is_cached (index s0) (files s0) i True"
          then have "ps \<in> set missing" using mi by (simp add: is_missing_def)
          then have "get_encoded_id (py_str w) ps \<in> set (map (get_encoded_id (py_str w)) missing)"
            by simp
          with F'(1) FF i show "i \<in> set F" by auto
        qed
        with s' t nc f fe show ?thesis
          by (intro ex2I [of _ F M]) (simp add: save_effect stored_after_save)
      qed
    qed
  qed
qed

lemma sync_all_cases:
  assumes "sync_all w skip s = Some (out, s')"
  obtains (listing_raised) e reqs where "list_all_payslips w = Some (Inl e, reqs)"
      "out = Raised e" "s' = load s"
  | (listed) listed reqs where "list_all_payslips w = Some (Inr listed, reqs)"
      "sync_listed w skip listed (load s) = (out, s')"
  using assms by (auto simp: sync_all_def split: option.splits sum.splits prod.splits)




lemma map_Inr_eq: "map Inr xs = map Inr ys \<Longrightarrow> xs = ys"
  by (simp add: inj_map_eq_map)

lemma sync_first_run:
  assumes empty: "stored_payslips s = []"
    and ok: "\<forall>ps\<in>set listed. record_downloads w skip ps"
    and ids: "map (get_encoded_id (py_str w)) listed = map Inr ids"
  shows "\<exists>s'. sync_listed w skip listed (load s)
            = (Returned (int (length listed)) 0 (int (length listed)), s') \<and>
          fetched_ids (events s') = fetched_ids (events s) @ ids \<and>
          marked_ids (events s') = marked_ids (events s) @ ids \<and>
          fst ` set (stored_payslips s') = set ids \<and>
          distinct (map fst (stored_payslips s')) \<and>
          (\<forall>i\<in>set ids. satisfied s' i)"
proof (cases "listed = []")
  case True
  with ids have "ids = []" by simp
  with True empty show ?thesis by (simp add: sync_listed_def load_effect)
next
  case False
  let ?s0 = "load s"
  have e0: "payslips (index ?s0) = []" using empty by (simp add: load_effect)
  have noerr: "\<forall>ps\<in>set listed. \<forall>e. get_encoded_id (py_str w) ps = Inl e \<longrightarrow> e = ValueError"
    using ok by (auto simp: record_downloads_def)
  from find_missing_total [OF noerr, of "[]" ?s0] obtain m s1
    where fm: "find_missing w listed [] ?s0 = (Inr m, s1)" by blast
  note fe = find_missing_effect [OF fm]
  have "\<forall>ps\<in>set listed. is_missing w ?s0 ps"
    using ok e0 by (auto simp: record_downloads_def is_missing_def is_cached_def split: sum.splits)
  with fe have m: "m = listed" by simp
  from fe e0 have e1: "payslips (index s1) = []" by simp
  from download_loop_prefix_ok [OF ok, of "[]" 0 s1] obtain s2 F where
    p: "download_loop w skip (listed @ []) 0 s1 = download_loop w skip [] (0 + length listed) s2"
      "map (get_encoded_id (py_str w)) listed = map Inr F"
      "fetched_ids (events s2) = fetched_ids (events s1) @ F"
      "marked_ids (events s2) = marked_ids (events s1) @ F"
      "fst ` set (payslips (index s2)) = fst ` set (payslips (index s1)) \<union> set F"
      "distinct (map fst (payslips (index s1))) \<longrightarrow> distinct (map fst (payslips (index s2)))"
      "\<forall>i\<in>set F. is_cached (index s2) (files s2) i True"
    by blast
  from p(2) ids have F: "F = ids" by (auto dest: map_Inr_eq)
  from p(1) have dl: "download_loop w skip listed 0 s1 = (Inr (length listed), s2)" by simp
  have run: "sync_listed w skip listed ?s0
      = (Returned (int (length listed)) 0 (int (length listed)), save w s2)"
    using False fm m dl by (simp add: sync_listed_def Let_def)
  have sat: "\<forall>i\<in>set ids. satisfied (save w s2) i"
    using p(7) F
    by (simp add: satisfied_def save_effect index_load_def is_cached_def)
  show ?thesis
    using run fe p(3,4,5,6) F e1 sat
    by (intro exI [of _ "save w s2"]) (simp add: save_effect stored_after_save load_effect)
qed

text \<open>The \<^verbatim>\<open>try\<close> block raises nothing for a record exactly when the detail request
  gives a decoded detail, the JSON file can be written and lies under the cache directory,
  and, where a PDF is asked for, the PDF request does not raise and a PDF received can be
  written and lies under the cache directory.\<close>

lemma body_raises_None:
  "body_raises w skip i pd sid iid = None \<longleftrightarrow>
     (\<exists>d. detail_result w i = Inr d) \<and>
     write_error w (path_text (make_file_path w pd ''json'')) = None \<and>
     (\<exists>jp. relative_to_cache (make_file_path w pd ''json'') = Inr jp) \<and>
     (skip \<or> \<not> opt_truthy sid \<or> \<not> opt_truthy iid \<or>
      (case fetch_payslip_pdf w (build_pdf_api_url (the sid) (the iid)) of
         Inl e \<Rightarrow> False
       | Inr None \<Rightarrow> True
       | Inr (Some pdf_data) \<Rightarrow>
           pdf_data = [] \<or>
           write_error w (path_text (make_file_path w pd ''pdf'')) = None \<and>
           (\<exists>pp. relative_to_cache (make_file_path w pd ''pdf'') = Inr pp)))"
  by (auto simp: body_raises_def download_body_def fetch_payslip_detail_def write_file_def
      pdf_step_def Let_def split: sum.splits option.splits)


text \<open>An entry that records no \<^verbatim>\<open>json_path\<close>, or an empty one, which no run writes, is
  reported cached on its presence alone.\<close>

lemma is_cached_without_path:
  assumes "map_of (payslips d) i = Some e" and "json_path e = None \<or> json_path e = Some []"
  shows "is_cached d fs i True"
  using assms by (auto simp: is_cached_def)

text \<open>
  C5, as amended. For an index entry with its \<^verbatim>\<open>json_path\<close>, \<^verbatim>\<open>is_cached\<close> (with
  \<^verbatim>\<open>verify_exists\<close> true) answers true only if that file exists; when the file is gone
  it answers false, and a run that lists the record finds it missing and fetches it again,
  unless the run ends in an exception first.
\<close>

theorem C5_dangling_amended:
  "(\<forall>e p. map_of (payslips d) i = Some e \<and> json_path e = Some p \<and> p \<noteq> [] \<and>
       is_cached d fs i True \<longrightarrow> p \<in> fs) \<and>
   (\<forall>e p. map_of (payslips d) i = Some e \<and> json_path e = Some p \<and> p \<noteq> [] \<and> p \<notin> fs
       \<longrightarrow> \<not> is_cached d fs i True) \<and>
   (\<forall>w skip s ps e p out s' listed reqs.
       map_of (stored_payslips s) i = Some e \<and> json_path e = Some p \<and> p \<noteq> [] \<and>
       p \<notin> files s \<and>
       sync_all w skip s = Some (out, s') \<and>
       list_all_payslips w = Some (Inr listed, reqs) \<and> ps \<in> set listed \<and>
       get_encoded_id (py_str w) ps = Inr i
       \<longrightarrow> \<not> satisfied s i \<and> is_missing w (load s) ps \<and>
           (i \<in> set (fetched_ids (events s')) \<or> (\<exists>x. out = Raised x)))"
proof (intro conjI allI impI)
  fix e p
  assume "map_of (payslips d) i = Some e \<and> json_path e = Some p \<and> p \<noteq> [] \<and>
       is_cached d fs i True"
  then show "p \<in> fs" by (auto simp: is_cached_def split: if_splits)
next
  fix e p
  assume "map_of (payslips d) i = Some e \<and> json_path e = Some p \<and> p \<noteq> [] \<and> p \<notin> fs"
  then show "\<not> is_cached d fs i True" by (simp add: is_cached_def)
next
  fix w skip s ps e p out s' listed reqs
  assume a: "map_of (stored_payslips s) i = Some e \<and> json_path e = Some p \<and> p \<noteq> [] \<and>
       p \<notin> files s \<and>
       sync_all w skip s = Some (out, s') \<and>
       list_all_payslips w = Some (Inr listed, reqs) \<and> ps \<in> set listed \<and>
       get_encoded_id (py_str w) ps = Inr i"
  then show ns: "\<not> satisfied s i"
    by (simp add: satisfied_def is_cached_def stored_payslips_def)
  with a show "is_missing w (load s) ps"
    by (simp add: is_missing_def satisfied_load)
  show "i \<in> set (fetched_ids (events s')) \<or> (\<exists>x. out = Raised x)"
  proof (cases out)
    case (Returned t c n)
    with a have run: "sync_listed w skip listed (load s) = (Returned t c n, s')"
      by (auto simp: sync_all_def)
    from sync_listed_core [OF run] obtain F where
      F: "fetched_ids (events s') = fetched_ids (events (load s)) @ F"
        "\<forall>ps\<in>set listed. \<forall>i. get_encoded_id (py_str w) ps = Inr i \<and>
                  \<not> is_cached (index (load s)) (files (load s)) i True \<longrightarrow> i \<in> set F"
      by blast
    from F(2) a ns have "i \<in> set F" by (auto simp: satisfied_load)
    with F(1) show ?thesis by simp
  next
    case (Raised x)
    then show ?thesis by simp
  qed
qed


section \<open>Concrete runs\<close>

lemma plain_listing: "list_all_payslips (plain_world rs d) = Some (Inr rs, [0])"
  by (simp add: list_all_payslips_def list_loop.simps query_page_def plain_world_def
      listing_of_def check_session_valid_def strip_def is_space_def startswith_def)

lemma id_slip_A: "get_encoded_id f (slip ''A'' d) = Inr ''A''"
  by (simp add: get_encoded_id_def slip_def href_of_def dict_get_def startswith_def
      split_second_def)

lemma id_slip_B: "get_encoded_id f (slip ''B'' d) = Inr ''B''"
  by (simp add: get_encoded_id_def slip_def href_of_def dict_get_def startswith_def
      split_second_def)

lemma id_nameless: "get_encoded_id f nameless = Inl ValueError"
  by (simp add: get_encoded_id_def nameless_def get_encoded_id_fallback_def)

lemma pdf_info_slip: "get_pdf_info (slip i d) = Inr (None, None)"
  by (simp add: get_pdf_info_def slip_def)

lemma pay_date_slip_A: "get_pay_date (slip i ''2024-01-31'') = ''2024-01-31''"
  by (simp add: get_pay_date_def slip_def split_first_def startswith_def)

lemma pay_date_slip_B: "get_pay_date (slip i ''2024-02-29'') = ''2024-02-29''"
  by (simp add: get_pay_date_def slip_def split_first_def startswith_def)

lemma digit_chars:
  "digit_char 0 = CHR ''0''" "digit_char (Suc 0) = CHR ''1''" "digit_char 2 = CHR ''2''"
  "digit_char 4 = CHR ''4''"
  by code_simp+

lemma path_A:
  "make_file_path (plain_world rs d) ''2024-01-31'' ''json''
     = UnderCache [''2024'', ''01'', ''2024-01-31.json'']"
  by (simp add: make_file_path_def plain_world_def split_first_def startswith_def
      str_of_nat.simps digit_chars path_parts_def)

lemma path_B:
  "make_file_path (plain_world rs d) ''2024-02-29'' ''json''
     = UnderCache [''2024'', ''02'', ''2024-02-29.json'']"
  by (simp add: make_file_path_def plain_world_def split_first_def startswith_def
      str_of_nat.simps digit_chars path_parts_def)


lemma write_plain: "write_error (plain_world rs d) p = None"
  by (simp add: plain_world_def)

lemma detail_all_ok: "detail_result (plain_world rs all_ok) i = Inr (JDict [])"
  by (simp add: detail_result_def plain_world_def all_ok_def check_session_valid_def
      strip_def is_space_def startswith_def)

lemma detail_interrupted_A:
  "detail_result (plain_world rs interrupted_at_B) ''A'' = Inr (JDict [])"
  by (simp add: detail_result_def plain_world_def all_ok_def interrupted_at_B_def
      check_session_valid_def strip_def is_space_def startswith_def)

lemma detail_interrupted_B:
  "detail_result (plain_world rs interrupted_at_B) ''B'' = Inl KeyboardInterrupt"
  by (simp add: detail_result_def plain_world_def interrupted_at_B_def)

lemma py_str_plain: "py_str (plain_world rs d) = (\<lambda>v. case v of JStr t \<Rightarrow> t | _ \<Rightarrow> ''?'')"
  by (simp add: plain_world_def)

lemma now_plain: "now_iso (plain_world rs d) n = ''2024-03-01T12:00:00''"
  by (simp add: plain_world_def)

text \<open>
  C9, at the failing input. The listing holds one record with no \<^verbatim>\<open>payDetailUri\<close> and
  none of the fallback fields, and the index is empty. \<^verbatim>\<open>_get_encoded_id\<close> raises
  \<^verbatim>\<open>ValueError\<close>, the run warns and goes on, and it returns \<open>(1, 1, 0)\<close>: the skipped
  record is counted as already cached, although the index holds no entry.
\<close>

theorem C9_unidentified_counted_as_cached:
  "get_encoded_id (py_str (plain_world [nameless] all_ok)) nameless = Inl ValueError \<and>
   (case sync_all (plain_world [nameless] all_ok) False fresh_state of
      None \<Rightarrow> False
    | Some (out, s) \<Rightarrow>
        out = Returned 1 1 0 \<and> events s = [Warned nameless, Saved] \<and> stored_payslips s = [])"
  by (simp add: sync_all_def plain_listing sync_listed_def id_nameless load_def fresh_state_def
      index_load_def save_def stored_payslips_def Let_def)

text \<open>
  C3, at the failing input. Two records are missing; the first downloads, the detail
  request of the second is interrupted. \<^verbatim>\<open>sync_all\<close> raises \<^verbatim>\<open>KeyboardInterrupt\<close>
  with the entry of the first record in memory only: no save took place, the index file is
  still absent, and \<^verbatim>\<open>main\<close> exits with code 1.
\<close>

theorem C3_interrupt_not_saved:
  "(case sync_all (plain_world two_slips interrupted_at_B) False fresh_state of
      None \<Rightarrow> False
    | Some (out, s) \<Rightarrow>
        out = Raised KeyboardInterrupt \<and>
        events s = [Fetched ''A'', WroteJson ''2024/01/2024-01-31.json'', Marked ''A'',
                    Fetched ''B''] \<and>
        map fst (payslips (index s)) = [''A''] \<and>
        disk_index s = NoFile \<and> stored_payslips s = []) \<and>
   (case main_sync (plain_world two_slips interrupted_at_B) False fresh_state of
      None \<Rightarrow> False
    | Some (code, s) \<Rightarrow> code = Inr 1 \<and> disk_index s = NoFile)"
  by (simp add: main_sync_def sync_all_def plain_listing sync_listed_def two_slips_def
      id_slip_A id_slip_B pdf_info_slip pay_date_slip_A pay_date_slip_B path_A
      detail_interrupted_A detail_interrupted_B load_def fresh_state_def
      index_load_def save_def stored_payslips_def Let_def is_cached_def
      download_body_def fetch_payslip_detail_def write_file_def write_plain
      relative_to_cache_def path_text_def pdf_step_def opt_truthy_def mark_cached_def
      now_plain)



lemma find_missing_noerr:
  "find_missing w listed acc s = (Inr m, s') \<Longrightarrow>
   \<forall>ps\<in>set listed. \<forall>e. get_encoded_id (py_str w) ps = Inl e \<longrightarrow> e = ValueError"
proof (induction listed arbitrary: acc s)
  case Nil
  show ?case by simp
next
  case (Cons ps rest)
  show ?case
  proof (cases "get_encoded_id (py_str w) ps")
    case (Inl e)
    show ?thesis
    proof (cases "e = ValueError")
      case True
      with Inl Cons.prems
      have "find_missing w rest acc (s\<lparr>events := events s @ [Warned ps]\<rparr>) = (Inr m, s')"
        by simp
      from Cons.IH [OF this] Inl True show ?thesis by simp
    next
      case False
      with Inl Cons.prems show ?thesis by (cases e) simp_all
    qed
  next
    case (Inr i)
    show ?thesis
    proof (cases "is_cached (index s) (files s) i True")
      case True
      with Inr Cons.prems have "find_missing w rest acc s = (Inr m, s')" by simp
      from Cons.IH [OF this] Inr show ?thesis by simp
    next
      case False
      with Inr Cons.prems have "find_missing w rest (acc @ [ps]) s = (Inr m, s')" by simp
      from Cons.IH [OF this] Inr show ?thesis by simp
    qed
  qed
qed

text \<open>A run in which every missing record downloads.\<close>

lemma sync_listed_all_ok:
  assumes ne: "listed \<noteq> []"
    and noerr: "\<forall>ps\<in>set listed. \<forall>e. get_encoded_id (py_str w) ps = Inl e \<longrightarrow> e = ValueError"
    and ms: "filter (is_missing w s0) listed = ms"
    and ok: "\<forall>ps\<in>set ms. record_downloads w skip ps"
    and F: "map (get_encoded_id (py_str w)) ms = map Inr F"
  shows "\<exists>s'. sync_listed w skip listed s0
            = (Returned (int (length listed)) (int (length listed) - int (length ms))
                 (int (length ms)), s') \<and>
          fetched_ids (events s') = fetched_ids (events s0) @ F \<and>
          marked_ids (events s') = marked_ids (events s0) @ F \<and>
          fst ` set (stored_payslips s') = fst ` set (payslips (index s0)) \<union> set F"
proof -
  from find_missing_total [OF noerr, of "[]" s0] obtain m s1
    where fm: "find_missing w listed [] s0 = (Inr m, s1)" by blast
  note fe = find_missing_effect [OF fm]
  with ms have m: "m = ms" by simp
  from download_loop_prefix_ok [OF ok, of "[]" 0 s1] obtain s2 F' where
    p: "download_loop w skip (ms @ []) 0 s1 = download_loop w skip [] (0 + length ms) s2"
      "map (get_encoded_id (py_str w)) ms = map Inr F'"
      "fetched_ids (events s2) = fetched_ids (events s1) @ F'"
      "marked_ids (events s2) = marked_ids (events s1) @ F'"
      "fst ` set (payslips (index s2)) = fst ` set (payslips (index s1)) \<union> set F'"
    by blast
  from p(2) F have FF: "F' = F" by (auto dest: map_Inr_eq)
  from p(1) have dl: "download_loop w skip ms 0 s1 = (Inr (length ms), s2)" by simp
  show ?thesis
  proof (cases "ms = []")
    case True
    with F have "F = []" by simp
    with True ne fm m fe show ?thesis
      by (intro exI [of _ "save w s1"])
        (simp add: sync_listed_def Let_def save_effect stored_after_save)
  next
    case False
    with ne fm m dl fe p(3,4,5) FF show ?thesis
      by (intro exI [of _ "save w s2"])
        (simp add: sync_listed_def Let_def save_effect stored_after_save)
  qed
qed

lemma expiry_messages:
  "is_expiry (''Authentication failed (401). Session may have expired.'' @ [CHR 0x0A] @
         ''Try running with --clear-cache to force fresh authentication.'')"
  "is_expiry (''Session expired - received login page instead of JSON.'' @ [CHR 0x0A] @
            ''Try running with --clear-cache to force fresh authentication.'')"
  by code_simp+










text \<open>After a run that returned, every listed record with an identifier is cached or is
  one whose download fails, the same way at every attempt, without ending the run.\<close>

lemma sync_listed_returned:
  assumes run: "sync_listed w skip listed s0 = (Returned t c n, s1)" and ne: "listed \<noteq> []"
  shows "\<exists>sb. s1 = save w sb \<and>
      (\<forall>ps\<in>set listed. \<forall>e. get_encoded_id (py_str w) ps = Inl e \<longrightarrow> e = ValueError) \<and>
      (\<forall>ps\<in>set listed. \<forall>i. get_encoded_id (py_str w) ps = Inr i \<longrightarrow>
          is_cached (index sb) (files sb) i True \<or>
          (\<exists>sid iid msg. get_pdf_info ps = Inr (sid, iid) \<and>
              body_raises w skip i (get_pay_date ps) sid iid = Some (RuntimeError msg) \<and> \<not> is_expiry msg))"
proof -
  obtain r sa where fm: "find_missing w listed [] s0 = (r, sa)"
    by (cases "find_missing w listed [] s0")
  with run ne obtain m where r: "r = Inr m"
    by (cases r) (auto simp: sync_listed_def)
  note fe = find_missing_effect [OF fm]
  from fe r have m: "m = filter (is_missing w s0) listed" by simp
  note noerr = find_missing_noerr [OF fm [unfolded r]]
  have notm: "is_cached (index sa) (files sa) i True"
    if "ps \<in> set listed" "get_encoded_id (py_str w) ps = Inr i" "ps \<notin> set m" for ps i
    using that m fe by (simp add: is_missing_def)
  show ?thesis
  proof (cases "m = []")
    case True
    with run ne fm r have "s1 = save w sa" by (simp add: sync_listed_def Let_def)
    moreover have "\<forall>ps\<in>set listed. \<forall>i. get_encoded_id (py_str w) ps = Inr i \<longrightarrow>
          is_cached (index sa) (files sa) i True"
      using notm True by simp
    ultimately show ?thesis using noerr by blast
  next
    case False
    obtain r2 sb where dl: "download_loop w skip m 0 sa = (r2, sb)"
      by (cases "download_loop w skip m 0 sa")
    with run ne fm r False obtain k where r2: "r2 = Inr k" and s1: "s1 = save w sb"
      by (cases r2) (auto simp: sync_listed_def Let_def)
    note ret = download_loop_returned [OF dl [unfolded r2]]
    have "\<forall>ps\<in>set listed. \<forall>i. get_encoded_id (py_str w) ps = Inr i \<longrightarrow>
          is_cached (index sb) (files sb) i True \<or>
          (\<exists>sid iid msg. get_pdf_info ps = Inr (sid, iid) \<and>
              body_raises w skip i (get_pay_date ps) sid iid = Some (RuntimeError msg) \<and> \<not> is_expiry msg)"
    proof (intro ballI allI impI)
      fix ps i assume ps: "ps \<in> set listed" and i: "get_encoded_id (py_str w) ps = Inr i"
      show "is_cached (index sb) (files sb) i True \<or>
          (\<exists>sid iid msg. get_pdf_info ps = Inr (sid, iid) \<and>
              body_raises w skip i (get_pay_date ps) sid iid = Some (RuntimeError msg) \<and> \<not> is_expiry msg)"
      proof (cases "ps \<in> set m")
        case True
        with ret i show ?thesis by fastforce
      next
        case False
        from notm [OF ps i False] download_loop_cached [OF dl] show ?thesis by blast
      qed
    qed
    with s1 noerr show ?thesis by blast
  qed
qed

text \<open>
  C6. A second run after a run that returned, against the same world, returns with the
  same total and \<open>newly_downloaded = 0\<close>, and the index it saves has the same payslips
  entries and the same \<open>total_count\<close> as the index the first run left.
\<close>

theorem C6_idempotent:
  assumes run: "sync_all w skip s = Some (Returned t c n, s1)"
  shows "\<exists>c' s2. sync_all w skip s1 = Some (Returned t c' 0, s2) \<and>
           stored_payslips s2 = stored_payslips s1 \<and>
           stored_total_count s2 = stored_total_count s1"
proof -
  from run obtain listed reqs where l: "list_all_payslips w = Some (Inr listed, reqs)"
    and r1: "sync_listed w skip listed (load s) = (Returned t c n, s1)"
    by (cases rule: sync_all_cases) auto
  show ?thesis
  proof (cases "listed = []")
    case True
    with r1 have "t = 0" by (simp add: sync_listed_def)
    with True l show ?thesis
      by (intro exI [of _ 0] exI [of _ "load s1"])
        (simp add: sync_all_def sync_listed_def stored_payslips_def stored_total_count_def
          load_def)
  next
    case False
    have t: "t = int (length listed)"
      using r1 False by (auto simp: sync_listed_def Let_def split: prod.splits sum.splits if_splits)
    from sync_listed_returned [OF r1 False] obtain sb where
      sb: "s1 = save w sb"
        "\<forall>ps\<in>set listed. \<forall>e. get_encoded_id (py_str w) ps = Inl e \<longrightarrow> e = ValueError"
        "\<forall>ps\<in>set listed. \<forall>i. get_encoded_id (py_str w) ps = Inr i \<longrightarrow>
          is_cached (index sb) (files sb) i True \<or>
          (\<exists>sid iid msg. get_pdf_info ps = Inr (sid, iid) \<and>
              body_raises w skip i (get_pay_date ps) sid iid = Some (RuntimeError msg) \<and> \<not> is_expiry msg)"
      by blast
    let ?s0 = "load s1"
    have P: "payslips (index ?s0) = payslips (index sb)" "files ?s0 = files sb"
      using sb(1) by (simp_all add: load_def save_def Let_def index_load_def)
    have st1: "stored_payslips s1 = payslips (index sb)"
      "stored_total_count s1 = length (payslips (index sb))"
      using sb(1) by (simp_all add: stored_after_save)
    from find_missing_total [OF sb(2), of "[]" ?s0] obtain m2 sc
      where fm: "find_missing w listed [] ?s0 = (Inr m2, sc)" by blast
    note fe = find_missing_effect [OF fm]
    then have m2: "m2 = filter (is_missing w ?s0) listed" by simp
    have fails: "\<forall>ps\<in>set m2. \<exists>i sid iid msg. get_encoded_id (py_str w) ps = Inr i \<and>
        get_pdf_info ps = Inr (sid, iid) \<and>
        body_raises w skip i (get_pay_date ps) sid iid = Some (RuntimeError msg) \<and> \<not> is_expiry msg"
    proof
      fix ps assume "ps \<in> set m2"
      with m2 have ps: "ps \<in> set listed" and mi: "is_missing w ?s0 ps" by simp_all
      from mi obtain i where i: "get_encoded_id (py_str w) ps = Inr i"
        and nc: "\<not> is_cached (index ?s0) (files ?s0) i True"
        by (auto simp: is_missing_def split: sum.splits)
      from nc P have "\<not> is_cached (index sb) (files sb) i True" by (simp add: is_cached_def)
      with sb(3) ps i show "\<exists>i sid iid msg. get_encoded_id (py_str w) ps = Inr i \<and>
        get_pdf_info ps = Inr (sid, iid) \<and>
        body_raises w skip i (get_pay_date ps) sid iid = Some (RuntimeError msg) \<and> \<not> is_expiry msg" by blast
    qed
    from download_loop_all_fail [OF fails, of 0 sc] obtain sd where
      dl: "download_loop w skip m2 0 sc = (Inr 0, sd)" "index sd = index sc" by blast
    let ?c' = "int (length listed) - int (length m2)"
    let ?s2 = "if m2 = [] then save w sc else save w sd"
    have r2: "sync_listed w skip listed ?s0 = (Returned t ?c' 0, ?s2)"
      using False fm dl(1) t by (simp add: sync_listed_def Let_def)
    have "payslips (index sd) = payslips (index sb)" "payslips (index sc) = payslips (index sb)"
      using dl(2) fe P by simp_all
    then have "stored_payslips ?s2 = stored_payslips s1"
      "stored_total_count ?s2 = stored_total_count s1"
      using st1 by (simp_all add: stored_after_save)
    moreover have "sync_all w skip s1 = Some (Returned t ?c' 0, ?s2)"
      using l r2 by (simp add: sync_all_def)
    ultimately show ?thesis by blast
  qed
qed


section \<open>Instances\<close>

lemma relative_A:
  "relative_to_cache (make_file_path (plain_world rs d) ''2024-01-31'' ''json'')
     = Inr ''2024/01/2024-01-31.json''"
  by (simp add: path_A relative_to_cache_def)

lemma relative_B:
  "relative_to_cache (make_file_path (plain_world rs d) ''2024-02-29'' ''json'')
     = Inr ''2024/02/2024-02-29.json''"
  by (simp add: path_B relative_to_cache_def)

lemma downloads_slip_A_ok:
  "record_downloads (plain_world rs all_ok) False (slip ''A'' ''2024-01-31'')"
  by (simp add: record_downloads_def id_slip_A pdf_info_slip body_raises_None detail_all_ok
      pay_date_slip_A write_plain relative_A opt_truthy_def)

lemma downloads_slip_B_ok:
  "record_downloads (plain_world rs all_ok) False (slip ''B'' ''2024-02-29'')"
  by (simp add: record_downloads_def id_slip_B pdf_info_slip body_raises_None detail_all_ok
      pay_date_slip_B write_plain relative_B opt_truthy_def)

lemma downloads_two_slips:
  "\<forall>ps\<in>set two_slips. record_downloads (plain_world two_slips all_ok) False ps"
  by (simp add: two_slips_def downloads_slip_A_ok downloads_slip_B_ok)

lemma ids_two_slips:
  "map (get_encoded_id (py_str w)) two_slips = map Inr [''A'', ''B'']"
  by (simp add: two_slips_def id_slip_A id_slip_B)

lemma fresh_state_facts: "stored_payslips fresh_state = []" "events fresh_state = []"
  by (simp_all add: fresh_state_def stored_payslips_def index_load_def)

lemma state_with_A_satisfied: "satisfied state_with_A ''A''"
  by (simp add: satisfied_def state_with_A_def index_load_def is_cached_def entry_A_def)

lemma state_with_A_facts:
  "events state_with_A = []" "map_of (stored_payslips state_with_A) ''A'' = Some entry_A"
  by (simp_all add: state_with_A_def stored_payslips_def index_load_def)

lemma first_run_two_slips:
  "\<exists>s'. sync_all (plain_world two_slips all_ok) False fresh_state = Some (Returned 2 0 2, s') \<and>
        fst ` set (stored_payslips s') = {''A'', ''B''}"
proof -
  from sync_first_run [OF fresh_state_facts(1) downloads_two_slips ids_two_slips]
  obtain s' where "sync_listed (plain_world two_slips all_ok) False two_slips (load fresh_state)
            = (Returned (int (length two_slips)) 0 (int (length two_slips)), s')"
    "fst ` set (stored_payslips s') = set [''A'', ''B'']" by blast
  then show ?thesis
    by (intro exI [of _ s']) (simp add: sync_all_def plain_listing two_slips_def)
qed









lemma state_dangling_facts:
  "map_of (stored_payslips state_dangling_A) ''A'' = Some entry_A"
  "json_path entry_A = Some ''2024/01/2024-01-31.json''"
  "''2024/01/2024-01-31.json'' \<notin> files state_dangling_A"
  "events state_dangling_A = []"
  "payslips (index (load state_dangling_A)) = [(''A'', entry_A)]"
  "files (load state_dangling_A) = {}"
  by (simp_all add: state_dangling_A_def state_with_A_def stored_payslips_def index_load_def
      entry_A_def load_def)

lemma run_dangling:
  "\<exists>s'. sync_all (plain_world two_slips all_ok) False state_dangling_A
          = Some (Returned 2 0 2, s')"
proof -
  let ?w = "plain_world two_slips all_ok"
  have ne: "two_slips \<noteq> []" by (simp add: two_slips_def)
  have noerr: "\<forall>ps\<in>set two_slips. \<forall>e. get_encoded_id (py_str ?w) ps = Inl e \<longrightarrow> e = ValueError"
    by (simp add: two_slips_def id_slip_A id_slip_B)
  have ms: "filter (is_missing ?w (load state_dangling_A)) two_slips = two_slips"
    by (simp add: two_slips_def is_missing_def id_slip_A id_slip_B is_cached_def
        state_dangling_facts entry_A_def)
  from sync_listed_all_ok [OF ne noerr ms downloads_two_slips ids_two_slips]
  show ?thesis
    by (auto simp: sync_all_def plain_listing two_slips_def)
qed

theorem C5_dangling_witness:
  "''2024/01/2024-01-31.json'' \<in> files state_with_A \<and>
   \<not> is_cached (index_load (disk_index state_dangling_A)) (files state_dangling_A) ''A'' True \<and>
   is_missing (plain_world two_slips all_ok) (load state_dangling_A) (slip ''A'' ''2024-01-31'') \<and>
   ''A'' \<in> set (fetched_ids (events
      (snd (the (sync_all (plain_world two_slips all_ok) False state_dangling_A)))))"
proof -
  have h1: "map_of (payslips (index_load (disk_index state_with_A))) ''A'' = Some entry_A \<and>
      json_path entry_A = Some ''2024/01/2024-01-31.json'' \<and> ''2024/01/2024-01-31.json'' \<noteq> [] \<and>
      is_cached (index_load (disk_index state_with_A)) (files state_with_A) ''A'' True"
    using state_with_A_satisfied state_with_A_facts(2) state_dangling_facts(2)
    by (simp add: satisfied_def stored_payslips_def)
  have 1: "''2024/01/2024-01-31.json'' \<in> files state_with_A"
    by (rule C5_dangling_amended [THEN conjunct1, rule_format, OF h1])
  have h2: "map_of (payslips (index_load (disk_index state_dangling_A))) ''A'' = Some entry_A \<and>
      json_path entry_A = Some ''2024/01/2024-01-31.json'' \<and> ''2024/01/2024-01-31.json'' \<noteq> [] \<and>
      ''2024/01/2024-01-31.json'' \<notin> files state_dangling_A"
    using state_dangling_facts(1,2,3) by (simp add: stored_payslips_def)
  have 2: "\<not> is_cached (index_load (disk_index state_dangling_A)) (files state_dangling_A)
      ''A'' True"
    by (rule C5_dangling_amended [THEN conjunct2, THEN conjunct1, rule_format, OF h2])
  from run_dangling obtain s' where
    r: "sync_all (plain_world two_slips all_ok) False state_dangling_A
          = Some (Returned 2 0 2, s')" by blast
  have h3: "map_of (stored_payslips state_dangling_A) ''A'' = Some entry_A \<and>
      json_path entry_A = Some ''2024/01/2024-01-31.json'' \<and> ''2024/01/2024-01-31.json'' \<noteq> [] \<and>
      ''2024/01/2024-01-31.json'' \<notin> files state_dangling_A \<and>
      sync_all (plain_world two_slips all_ok) False state_dangling_A = Some (Returned 2 0 2, s') \<and>
      list_all_payslips (plain_world two_slips all_ok) = Some (Inr two_slips, [0]) \<and>
      slip ''A'' ''2024-01-31'' \<in> set two_slips \<and>
      get_encoded_id (py_str (plain_world two_slips all_ok)) (slip ''A'' ''2024-01-31'') = Inr ''A''"
    using state_dangling_facts(1,2,3) r plain_listing [of two_slips all_ok] id_slip_A
    by (simp add: two_slips_def)
  note t = C5_dangling_amended [THEN conjunct2, THEN conjunct2, rule_format, OF h3]
  from t have 3: "is_missing (plain_world two_slips all_ok) (load state_dangling_A)
      (slip ''A'' ''2024-01-31'')" by simp
  from t have "''A'' \<in> set (fetched_ids (events s'))" by simp
  with r have 4: "''A'' \<in> set (fetched_ids (events
      (snd (the (sync_all (plain_world two_slips all_ok) False state_dangling_A)))))"
    by simp
  from 1 2 3 4 show ?thesis by simp
qed

text \<open>
  C5 as stated fails for a run that is ended before the record's turn. The index file
  holds the entry of record \<^verbatim>\<open>A\<close>, whose JSON file is gone; the listing returns
  \<^verbatim>\<open>B\<close>, then \<^verbatim>\<open>A\<close>; both are missing, and the detail request for \<^verbatim>\<open>B\<close> is
  answered with status 401. The run saves the index and raises the session-expiry error:
  \<^verbatim>\<open>A\<close> has not been fetched again.
\<close>

theorem C5_dangling_counterexample:
  "map_of (stored_payslips state_dangling_A) ''A'' = Some entry_A \<and>
   json_path entry_A = Some ''2024/01/2024-01-31.json'' \<and>
   ''2024/01/2024-01-31.json'' \<notin> files state_dangling_A \<and>
   list_all_payslips (plain_world two_slips_B_first expired_at_B)
     = Some (Inr two_slips_B_first, [0]) \<and>
   slip ''A'' ''2024-01-31'' \<in> set two_slips_B_first \<and>
   get_encoded_id (py_str (plain_world two_slips_B_first expired_at_B))
     (slip ''A'' ''2024-01-31'') = Inr ''A'' \<and>
   fst (the (sync_all (plain_world two_slips_B_first expired_at_B) False state_dangling_A))
     = Raised (the (check_session_valid 401 [])) \<and>
   fetched_ids (events
     (snd (the (sync_all (plain_world two_slips_B_first expired_at_B) False state_dangling_A))))
     = [''B''] \<and>
   ''A'' \<notin> set (fetched_ids (events
     (snd (the (sync_all (plain_world two_slips_B_first expired_at_B) False
        state_dangling_A)))))"
proof -
  have d: "detail_result (plain_world rs expired_at_B) ''B''
      = Inl (the (check_session_valid 401 []))" for rs
    by (simp add: detail_result_def plain_world_def expired_at_B_def check_session_valid_def)
  have x: "is_expiry (''Authentication failed (401). Session may have expired.'' @ [CHR 0x0A] @
         ''Try running with --clear-cache to force fresh authentication.'')"
    by (rule expiry_messages(1))
  have run: "sync_all (plain_world two_slips_B_first expired_at_B) False state_dangling_A
      = Some (Raised (the (check_session_valid 401 [])),
          save (plain_world two_slips_B_first expired_at_B)
            ((load state_dangling_A)\<lparr>events := [Fetched ''B'']\<rparr>))"
    using x
    by (simp add: sync_all_def plain_listing sync_listed_def two_slips_B_first_def
        id_slip_A id_slip_B pdf_info_slip pay_date_slip_A pay_date_slip_B d
        state_dangling_facts is_cached_def entry_A_def load_effect(4)
        download_body_def fetch_payslip_detail_def check_session_valid_def)
  show ?thesis
    by (simp add: run state_dangling_facts plain_listing id_slip_A save_effect)
      (simp add: two_slips_B_first_def load_effect state_dangling_facts)
qed

theorem C6_idempotent_witness:
  "\<exists>c' s2. sync_all (plain_world two_slips all_ok) False
              (snd (the (sync_all (plain_world two_slips all_ok) False fresh_state)))
            = Some (Returned 2 c' 0, s2) \<and>
          stored_payslips s2
            = stored_payslips (snd (the (sync_all (plain_world two_slips all_ok) False
                fresh_state)))"
proof -
  from first_run_two_slips obtain s' where
    s': "sync_all (plain_world two_slips all_ok) False fresh_state = Some (Returned 2 0 2, s')"
    by blast
  from C6_idempotent [OF s'] s' show ?thesis by auto
qed




end
